theory Spec2Isabelle
  imports Main
begin

section \<open>Python values, exceptions and the error context\<close>

text \<open>
  The values that flow through \<open>filters/complex.py\<close>: \<open>None\<close>, integers, text,
  lists, tuples and dicts. A dict is an association list in insertion order. Python
  compares \<open>True\<close> equal to \<open>1\<close>; booleans are left out of the universe so that
  equality of keys is the equality of HOL.
\<close>

datatype pyval =
    PNone
  | PInt int
  | PStr string
  | PList "pyval list"
  | PTuple "pyval list"
  | PDict "(pyval \<times> pyval) list"

text \<open>The exceptions that the operations used by the source can raise.\<close>

datatype py_exn = TypeError | KeyError | AttributeError

text \<open>\<open>hash(key)\<close> succeeds: lists and dicts are unhashable, a tuple is hashable when
  all its members are.\<close>

fun hashable :: "pyval \<Rightarrow> bool" where
  "hashable PNone = True"
| "hashable (PInt i) = True"
| "hashable (PStr s) = True"
| "hashable (PList xs) = False"
| "hashable (PTuple xs) = list_all hashable xs"
| "hashable (PDict kvs) = False"

text \<open>\<open>isinstance(v, Mapping)\<close> and \<open>isinstance(v, Iterable)\<close>.\<close>

fun is_mapping :: "pyval \<Rightarrow> bool" where
  "is_mapping (PDict kvs) = True"
| "is_mapping v = False"

fun is_iterable :: "pyval \<Rightarrow> bool" where
  "is_iterable PNone = False"
| "is_iterable (PInt i) = False"
| "is_iterable v = True"

text \<open>The elements that iterating a value produces; \<open>iter(5)\<close> raises \<open>TypeError\<close>.\<close>

fun py_iter :: "pyval \<Rightarrow> py_exn + pyval list" where
  "py_iter (PList xs) = Inr xs"
| "py_iter (PTuple xs) = Inr xs"
| "py_iter (PStr s) = Inr (map (\<lambda>c. PStr [c]) s)"
| "py_iter (PDict kvs) = Inr (map fst kvs)"
| "py_iter v = Inl TypeError"

text \<open>\<open>key in s\<close> for a Python set \<open>s\<close>: membership hashes the key first.\<close>

definition py_set_contains :: "pyval set \<Rightarrow> pyval \<Rightarrow> py_exn + bool" where
  "py_set_contains S key = (if hashable key then Inr (key \<in> S) else Inl TypeError)"

text \<open>\<open>key in d\<close> and \<open>d[key]\<close> for a dict \<open>d\<close>.\<close>

definition py_dict_contains :: "(pyval \<times> pyval) list \<Rightarrow> pyval \<Rightarrow> py_exn + bool" where
  "py_dict_contains kvs key =
     (if hashable key then Inr (key \<in> set (map fst kvs)) else Inl TypeError)"

definition py_dict_getitem :: "(pyval \<times> pyval) list \<Rightarrow> pyval \<Rightarrow> py_exn + pyval" where
  "py_dict_getitem kvs key =
     (if hashable key
      then (case map_of kvs key of None \<Rightarrow> Inl KeyError | Some v \<Rightarrow> Inr v)
      else Inl TypeError)"

text \<open>
  An error recorded in the shared error context: the reason code, the offending value
  and the path of sub-keys that leads to it. The context itself is the list of errors
  recorded so far together with the \<open>_has_errors\<close> flag that \<open>_apply\<close> reads.
\<close>

datatype filter_error = FilterErr (reason: string) (bad_value: pyval) (path: "pyval list")

record fstate =
  errors :: "filter_error list"
  has_errors :: bool

text \<open>
  A normalized filter chain. \<open>None\<close> is the absent chain, which passes the value
  through. A chain is otherwise opaque: applied to a value it returns the transformed
  value and the errors it reports, each with its path below the place the chain is
  applied at.
\<close>

type_synonym filter_chain = "(pyval \<Rightarrow> pyval \<times> filter_error list) option"

text \<open>
  What the source uses and does not define: the placeholder that \<open>_invalid_value\<close>
  returns, \<open>Unicode().apply\<close> (\<open>None\<close> where it raises \<open>FilterError\<close>), \<open>repr\<close>,
  and the order in which Python iterates a set, given the elements it holds.
\<close>

record pyenv =
  invalid_placeholder :: pyval
  unicode_apply :: "pyval \<Rightarrow> string option"
  py_repr :: "pyval \<Rightarrow> string"
  set_order :: "pyval list \<Rightarrow> pyval list"

definition set_order_ok :: "pyenv \<Rightarrow> bool" where
  "set_order_ok env \<longleftrightarrow>
     (\<forall>xs. distinct xs \<longrightarrow> distinct (set_order env xs) \<and> set (set_order env xs) = set xs)"

abbreviation CODE_EXTRA_KEY :: string where
  "CODE_EXTRA_KEY \<equiv> ''unexpected''"

abbreviation CODE_MISSING_KEY :: string where
  "CODE_MISSING_KEY \<equiv> ''missing''"

abbreviation TYPE_MISMATCH :: string where
  "TYPE_MISMATCH \<equiv> ''TYPE_MISMATCH''"

section \<open>The base filter contract\<close>

text \<open>
  Modelled from the spec: recording errors, which the base class does and the source
  file does not show. Every error "is appended to the error context of the root filter
  invocation", and a filter that has recorded one has failed: its \<open>_has_errors\<close> is set.
\<close>

definition record_errors :: "filter_error list \<Rightarrow> fstate \<Rightarrow> fstate" where
  "record_errors errs st =
     st\<lparr>errors := errors st @ errs, has_errors := has_errors st \<or> errs \<noteq> []\<rparr>"

text \<open>
  Modelled from the spec: an error that a chain reports is "tagged with the current
  path segment", the sub-key the chain was applied under, in front of its own path; an
  application without a sub-key adds no segment.
\<close>

definition under :: "pyval option \<Rightarrow> filter_error \<Rightarrow> filter_error" where
  "under sub_key e =
     (case sub_key of None \<Rightarrow> e
      | Some k \<Rightarrow> FilterErr (reason e) (bad_value e) (k # path e))"

text \<open>
  Modelled from the spec: \<open>BaseFilter._invalid_value\<close>, which is not in the source
  file. "Given a value, a reason code, and a path segment, records the error and returns
  a placeholder value".
\<close>

definition BaseFilter_invalid_value ::
  "pyenv \<Rightarrow> pyval \<Rightarrow> string \<Rightarrow> pyval \<Rightarrow> fstate \<Rightarrow> pyval \<times> fstate" where
  "BaseFilter_invalid_value env val code sub_key st =
     (invalid_placeholder env, record_errors [FilterErr code val [sub_key]] st)"

text \<open>
  Modelled from the spec: applying a normalized chain to a value, which is not in the
  source file. The absent chain is the "identity chain that performs no transformation".
\<close>

definition run_chain :: "filter_chain \<Rightarrow> pyval \<Rightarrow> pyval \<times> filter_error list" where
  "run_chain fc val = (case fc of None \<Rightarrow> (val, []) | Some f \<Rightarrow> f val)"

text \<open>
  Modelled from the spec: \<open>BaseFilter._filter\<close>, which is not in the source file.
  "An operation filter(value, chainOrSpec, pathSegment) -> transformedValue, which
  internally records errors (reason code + offending value + path segment) against the
  calling context".
\<close>

definition BaseFilter_filter ::
  "pyval \<Rightarrow> filter_chain \<Rightarrow> pyval option \<Rightarrow> fstate \<Rightarrow> pyval \<times> fstate" where
  "BaseFilter_filter val fc sub_key st =
     (let (val', errs) = run_chain fc val
      in (val', record_errors (map (under sub_key) errs) st))"

text \<open>
  Modelled from the spec: the leaf filter \<open>Type(T)\<close>, which is not in the source file.
  Input that is not of the required shape "fails immediately with a type error, recorded
  as one error against the current path", and the filter "returns a sentinel/null on
  failure".
\<close>

definition Type :: "(pyval \<Rightarrow> bool) \<Rightarrow> filter_chain" where
  "Type is_instance =
     Some (\<lambda>v. if is_instance v then (v, []) else (PNone, [FilterErr TYPE_MISMATCH v []]))"

section \<open>Key stringification\<close>

definition unicodify_key :: "pyenv \<Rightarrow> pyval \<Rightarrow> string" where
  "unicodify_key env key =
     (if key = PNone then ''None''
      else (case unicode_apply env key of
              Some s \<Rightarrow> s
            | None \<Rightarrow> py_repr env key))"

section \<open>The result containers\<close>

text \<open>\<open>d[k] = v\<close> on an ordered dict: a key that is present keeps its position.\<close>

fun dict_setitem :: "(pyval \<times> pyval) list \<Rightarrow> pyval \<Rightarrow> pyval \<Rightarrow> (pyval \<times> pyval) list" where
  "dict_setitem [] k v = [(k, v)]"
| "dict_setitem ((k', v') # d) k v =
     (if k' = k then (k, v) # d else (k', v') # dict_setitem d k v)"

text \<open>
  \<open>OrderedDict(items)\<close> from the \<open>(key, value)\<close> tuples a generator yields, inserted one
  after the other into the dict built so far. An unhashable key raises \<open>TypeError\<close>, and
  so does an item that is not a pair (the generators below yield pairs only).
\<close>

fun OrderedDict_update ::
  "(pyval \<times> pyval) list \<Rightarrow> pyval list \<Rightarrow> py_exn + (pyval \<times> pyval) list" where
  "OrderedDict_update d [] = Inr d"
| "OrderedDict_update d (PTuple [k, v] # items) =
     (if hashable k then OrderedDict_update (dict_setitem d k v) items else Inl TypeError)"
| "OrderedDict_update d (item # items) = Inl TypeError"

definition OrderedDict :: "pyval list \<Rightarrow> py_exn + pyval" where
  "OrderedDict items = map_sum id PDict (OrderedDict_update [] items)"

section \<open>FilterRepeater\<close>

record FilterRepeater =
  filter_chain :: filter_chain
  restrict_keys :: "pyval set option"

definition FilterRepeater_apply_item ::
  "string \<Rightarrow> pyval \<Rightarrow> filter_chain \<Rightarrow> fstate \<Rightarrow> pyval \<times> fstate" where
  "FilterRepeater_apply_item key val fc st = BaseFilter_filter val fc (Some (PStr key)) st"

text \<open>\<open>(self.restrict_keys is None) or (k in self.restrict_keys)\<close>\<close>

definition restrict_admits :: "FilterRepeater \<Rightarrow> pyval \<Rightarrow> py_exn + bool" where
  "restrict_admits self k =
     (case restrict_keys self of None \<Rightarrow> Inr True | Some S \<Rightarrow> py_set_contains S k)"

text \<open>The loop of \<open>iter\<close> over the items of a mapping. A key that the restriction
  rejects yields nothing.\<close>

fun FilterRepeater_iter_mapping ::
  "pyenv \<Rightarrow> FilterRepeater \<Rightarrow> (pyval \<times> pyval) list \<Rightarrow> fstate \<Rightarrow> py_exn + (pyval list \<times> fstate)" where
  "FilterRepeater_iter_mapping env self [] st = Inr ([], st)"
| "FilterRepeater_iter_mapping env self ((k, v) # rest) st =
     (let u_key = unicodify_key env k in
      case restrict_admits self k of
        Inl e \<Rightarrow> Inl e
      | Inr True \<Rightarrow>
          (let (v', st1) = FilterRepeater_apply_item u_key v (filter_chain self) st in
           case FilterRepeater_iter_mapping env self rest st1 of
             Inl e \<Rightarrow> Inl e
           | Inr (items, st2) \<Rightarrow> Inr (PTuple [k, v'] # items, st2))
      | Inr False \<Rightarrow>
          (let (p, st1) = BaseFilter_invalid_value env v CODE_EXTRA_KEY (PStr u_key) st in
           FilterRepeater_iter_mapping env self rest st1))"

text \<open>The loop of \<open>iter\<close> over \<open>enumerate(value)\<close>, from index \<open>i\<close> on (an index is a Python \<open>int\<close> that counts from \<open>0\<close>). An index that
  the restriction rejects yields the placeholder.\<close>

fun FilterRepeater_iter_sequence ::
  "pyenv \<Rightarrow> FilterRepeater \<Rightarrow> nat \<Rightarrow> pyval list \<Rightarrow> fstate \<Rightarrow> py_exn + (pyval list \<times> fstate)" where
  "FilterRepeater_iter_sequence env self i [] st = Inr ([], st)"
| "FilterRepeater_iter_sequence env self i (v # rest) st =
     (let u_key = unicodify_key env (PInt (int i)) in
      case restrict_admits self (PInt (int i)) of
        Inl e \<Rightarrow> Inl e
      | Inr True \<Rightarrow>
          (let (v', st1) = FilterRepeater_apply_item u_key v (filter_chain self) st in
           case FilterRepeater_iter_sequence env self (Suc i) rest st1 of
             Inl e \<Rightarrow> Inl e
           | Inr (items, st2) \<Rightarrow> Inr (v' # items, st2))
      | Inr False \<Rightarrow>
          (let (p, st1) = BaseFilter_invalid_value env v CODE_EXTRA_KEY (PStr u_key) st in
           case FilterRepeater_iter_sequence env self (Suc i) rest st1 of
             Inl e \<Rightarrow> Inl e
           | Inr (items, st2) \<Rightarrow> Inr (p # items, st2)))"

text \<open>\<open>FilterRepeater.iter\<close>: the items the generator yields when it is run to its end,
  and the error context it leaves.\<close>

definition FilterRepeater_iter ::
  "pyenv \<Rightarrow> FilterRepeater \<Rightarrow> pyval \<Rightarrow> fstate \<Rightarrow> py_exn + (pyval list \<times> fstate)" where
  "FilterRepeater_iter env self val st =
     (if val \<noteq> PNone
      then (case val of
              PDict kvs \<Rightarrow> FilterRepeater_iter_mapping env self kvs st
            | _ \<Rightarrow> (case py_iter val of
                      Inl e \<Rightarrow> Inl e
                    | Inr xs \<Rightarrow> FilterRepeater_iter_sequence env self 0 xs st))
      else Inr ([], st))"

definition FilterRepeater_apply ::
  "pyenv \<Rightarrow> FilterRepeater \<Rightarrow> pyval \<Rightarrow> fstate \<Rightarrow> py_exn + (pyval \<times> fstate)" where
  "FilterRepeater_apply env self val0 st0 =
     (let (val, st) = BaseFilter_filter val0 (Type is_iterable) None st0 in
      if has_errors st then Inr (PNone, st)
      else (case FilterRepeater_iter env self val st of
              Inl e \<Rightarrow> Inl e
            | Inr (items, st') \<Rightarrow>
                (if is_mapping val
                 then (case OrderedDict items of Inl e \<Rightarrow> Inl e | Inr d \<Rightarrow> Inr (d, st'))
                 else Inr (PList items, st'))))"

section \<open>FilterMapper\<close>

text \<open>\<open>allow_missing_keys\<close> and \<open>allow_extra_keys\<close> after \<open>__init__\<close>: a \<open>bool\<close> or a
  \<open>set\<close>.\<close>

datatype key_policy = PolicyBool bool | PolicySet "pyval set"

record FilterMapper =
  filters :: "(pyval \<times> filter_chain) list"
  allow_missing_keys :: key_policy
  allow_extra_keys :: key_policy

text \<open>\<open>key in policy\<close>: a \<open>bool\<close> is not a container, so the test raises \<open>TypeError\<close>.\<close>

fun py_policy_contains :: "key_policy \<Rightarrow> pyval \<Rightarrow> py_exn + bool" where
  "py_policy_contains (PolicyBool b) key = Inl TypeError"
| "py_policy_contains (PolicySet S) key = py_set_contains S key"

definition missing_key_allowed :: "FilterMapper \<Rightarrow> pyval \<Rightarrow> py_exn + bool" where
  "missing_key_allowed self key =
     (if allow_missing_keys self = PolicyBool True then Inr True
      else (case py_policy_contains (allow_missing_keys self) key of
              Inr b \<Rightarrow> Inr b
            | Inl TypeError \<Rightarrow> Inr False
            | Inl e \<Rightarrow> Inl e))"

definition extra_key_allowed :: "FilterMapper \<Rightarrow> pyval \<Rightarrow> py_exn + bool" where
  "extra_key_allowed self key =
     (if allow_extra_keys self = PolicyBool True then Inr True
      else (case py_policy_contains (allow_extra_keys self) key of
              Inr b \<Rightarrow> Inr b
            | Inl TypeError \<Rightarrow> Inr False
            | Inl e \<Rightarrow> Inl e))"

definition FilterMapper_apply_item ::
  "pyval \<Rightarrow> pyval \<Rightarrow> filter_chain \<Rightarrow> fstate \<Rightarrow> pyval \<times> fstate" where
  "FilterMapper_apply_item key val fc st = BaseFilter_filter val fc (Some key) st"

text \<open>The first loop of \<open>iter\<close>: the declared keys, in the order of \<open>_filters\<close>.\<close>

fun FilterMapper_iter_declared ::
  "pyenv \<Rightarrow> FilterMapper \<Rightarrow> (pyval \<times> pyval) list \<Rightarrow> (pyval \<times> filter_chain) list \<Rightarrow> fstate
     \<Rightarrow> py_exn + (pyval list \<times> fstate)" where
  "FilterMapper_iter_declared env self kvs [] st = Inr ([], st)"
| "FilterMapper_iter_declared env self kvs ((key, fc) # rest) st =
     (case py_dict_contains kvs key of
        Inl e \<Rightarrow> Inl e
      | Inr True \<Rightarrow>
          (case py_dict_getitem kvs key of
             Inl e \<Rightarrow> Inl e
           | Inr v \<Rightarrow>
               (let (v', st1) = FilterMapper_apply_item key v fc st in
                case FilterMapper_iter_declared env self kvs rest st1 of
                  Inl e \<Rightarrow> Inl e
                | Inr (items, st2) \<Rightarrow> Inr (PTuple [key, v'] # items, st2)))
      | Inr False \<Rightarrow>
          (case missing_key_allowed self key of
             Inl e \<Rightarrow> Inl e
           | Inr True \<Rightarrow>
               (let (v', st1) = FilterMapper_apply_item key PNone fc st in
                case FilterMapper_iter_declared env self kvs rest st1 of
                  Inl e \<Rightarrow> Inl e
                | Inr (items, st2) \<Rightarrow> Inr (PTuple [key, v'] # items, st2))
           | Inr False \<Rightarrow>
               (let (p, st1) = BaseFilter_invalid_value env PNone CODE_MISSING_KEY key st in
                case FilterMapper_iter_declared env self kvs rest st1 of
                  Inl e \<Rightarrow> Inl e
                | Inr (items, st2) \<Rightarrow> Inr (PTuple [key, p] # items, st2))))"

text \<open>\<open>set(iterkeys(value)) - set(iterkeys(self._filters))\<close>, as the list of its elements
  in the order Python iterates it. Building a set hashes every element.\<close>

definition extra_keys :: "pyenv \<Rightarrow> pyval list \<Rightarrow> pyval list \<Rightarrow> py_exn + pyval list" where
  "extra_keys env value_keys filter_keys =
     (if list_all hashable value_keys \<and> list_all hashable filter_keys
      then Inr (set_order env (filter (\<lambda>k. k \<notin> set filter_keys) (remdups value_keys)))
      else Inl TypeError)"

text \<open>The second loop of \<open>iter\<close>: the extra keys. A key that the policy rejects yields
  nothing.\<close>

fun FilterMapper_iter_extra ::
  "pyenv \<Rightarrow> FilterMapper \<Rightarrow> (pyval \<times> pyval) list \<Rightarrow> pyval list \<Rightarrow> fstate
     \<Rightarrow> py_exn + (pyval list \<times> fstate)" where
  "FilterMapper_iter_extra env self kvs [] st = Inr ([], st)"
| "FilterMapper_iter_extra env self kvs (key # rest) st =
     (case extra_key_allowed self key of
        Inl e \<Rightarrow> Inl e
      | Inr True \<Rightarrow>
          (case py_dict_getitem kvs key of
             Inl e \<Rightarrow> Inl e
           | Inr v \<Rightarrow>
               (case FilterMapper_iter_extra env self kvs rest st of
                  Inl e \<Rightarrow> Inl e
                | Inr (items, st2) \<Rightarrow> Inr (PTuple [key, v] # items, st2)))
      | Inr False \<Rightarrow>
          (case py_dict_getitem kvs key of
             Inl e \<Rightarrow> Inl e
           | Inr v \<Rightarrow>
               (let (p, st1) = BaseFilter_invalid_value env v CODE_EXTRA_KEY
                                 (PStr (unicodify_key env key)) st in
                FilterMapper_iter_extra env self kvs rest st1)))"

text \<open>
  \<open>FilterMapper.iter\<close>, run to its end. The argument is annotated \<open>Mapping\<close>; a value
  that is neither \<open>None\<close> nor a mapping has no \<open>keys\<close> to iterate, and the call raises.
\<close>

definition FilterMapper_iter ::
  "pyenv \<Rightarrow> FilterMapper \<Rightarrow> pyval \<Rightarrow> fstate \<Rightarrow> py_exn + (pyval list \<times> fstate)" where
  "FilterMapper_iter env self val st =
     (if val \<noteq> PNone
      then (case val of
              PDict kvs \<Rightarrow>
                (case FilterMapper_iter_declared env self kvs (filters self) st of
                   Inl e \<Rightarrow> Inl e
                 | Inr (items1, st1) \<Rightarrow>
                     (case extra_keys env (map fst kvs) (map fst (filters self)) of
                        Inl e \<Rightarrow> Inl e
                      | Inr ks \<Rightarrow>
                          (case FilterMapper_iter_extra env self kvs ks st1 of
                             Inl e \<Rightarrow> Inl e
                           | Inr (items2, st2) \<Rightarrow> Inr (items1 @ items2, st2))))
            | _ \<Rightarrow> Inl AttributeError)
      else Inr ([], st))"

definition FilterMapper_apply ::
  "pyenv \<Rightarrow> FilterMapper \<Rightarrow> pyval \<Rightarrow> fstate \<Rightarrow> py_exn + (pyval \<times> fstate)" where
  "FilterMapper_apply env self val0 st0 =
     (let (val, st) = BaseFilter_filter val0 (Type is_mapping) None st0 in
      if has_errors st then Inr (PNone, st)
      else (case FilterMapper_iter env self val st of
              Inl e \<Rightarrow> Inl e
            | Inr (items, st') \<Rightarrow>
                (case OrderedDict items of Inl e \<Rightarrow> Inl e | Inr d \<Rightarrow> Inr (d, st'))))"

section \<open>Notions used in the proofs\<close>

text \<open>
  What one pass of the first loop of \<open>FilterMapper.iter\<close> contributes for a declared
  key: the value it yields under the key and the errors it records.
\<close>

definition declared_value ::
  "pyenv \<Rightarrow> FilterMapper \<Rightarrow> (pyval \<times> pyval) list \<Rightarrow> pyval \<times> filter_chain \<Rightarrow> pyval" where
  "declared_value env self kvs kf =
     (if fst kf \<in> fst ` set kvs then fst (run_chain (snd kf) (the (map_of kvs (fst kf))))
      else if missing_key_allowed self (fst kf) = Inr True then fst (run_chain (snd kf) PNone)
      else invalid_placeholder env)"

definition declared_errors ::
  "FilterMapper \<Rightarrow> (pyval \<times> pyval) list \<Rightarrow> pyval \<times> filter_chain \<Rightarrow> filter_error list" where
  "declared_errors self kvs kf =
     (if fst kf \<in> fst ` set kvs
      then map (under (Some (fst kf))) (snd (run_chain (snd kf) (the (map_of kvs (fst kf)))))
      else if missing_key_allowed self (fst kf) = Inr True
      then map (under (Some (fst kf))) (snd (run_chain (snd kf) PNone))
      else [FilterErr CODE_MISSING_KEY PNone [fst kf]])"

text \<open>The extra keys of an input, in the order the second loop visits them.\<close>

definition mapper_extras :: "pyenv \<Rightarrow> FilterMapper \<Rightarrow> (pyval \<times> pyval) list \<Rightarrow> pyval list" where
  "mapper_extras env self kvs =
     set_order env (filter (\<lambda>k. k \<notin> set (map fst (filters self))) (remdups (map fst kvs)))"

section \<open>An instance for the examples\<close>

text \<open>
  A fresh error context, and one choice of what the source leaves open: a placeholder
  that differs from every filtered value of the examples, a string coercion that
  renders text as itself and an integer in decimal, and sets iterated in insertion
  order.
\<close>

definition example_st :: fstate where
  "example_st = \<lparr>errors = [], has_errors = False\<rparr>"

fun text_of_nat :: "nat \<Rightarrow> string" where
  "text_of_nat n =
     (if n < 10 then [''0123456789'' ! n]
      else text_of_nat (n div 10) @ [''0123456789'' ! (n mod 10)])"

declare text_of_nat.simps [simp del]

definition text_of_int :: "int \<Rightarrow> string" where
  "text_of_int i = (if i < 0 then CHR ''-'' # text_of_nat (nat (- i)) else text_of_nat (nat i))"

definition example_env :: pyenv where
  "example_env =
     \<lparr>invalid_placeholder = PStr ''<invalid>'',
      unicode_apply =
        (\<lambda>k. case k of PStr s \<Rightarrow> Some s | PInt i \<Rightarrow> Some (text_of_int i) | _ \<Rightarrow> None),
      py_repr = (\<lambda>k. ''<object>''),
      set_order = (\<lambda>xs. xs)\<rparr>"

text \<open>A chain that rejects \<open>None\<close>, as a filter that requires a value does, and passes
  every other value through.\<close>

definition rejects_none :: filter_chain where
  "rejects_none =
     Some (\<lambda>v. if v = PNone then (PNone, [FilterErr ''required'' v []]) else (v, []))"

section \<open>Lemmas about the loops\<close>

lemma record_errors_Nil [simp]: "record_errors [] st = st"
  by (simp add: record_errors_def)

lemma record_errors_append [simp]:
  "record_errors b (record_errors a st) = record_errors (a @ b) st"
  by (simp add: record_errors_def)

lemma errors_record_errors [simp]: "errors (record_errors a st) = errors st @ a"
  by (simp add: record_errors_def)

lemma has_errors_record_errors [simp]:
  "has_errors (record_errors a st) \<longleftrightarrow> has_errors st \<or> a \<noteq> []"
  by (simp add: record_errors_def)

lemma dict_setitem_fresh: "k \<notin> fst ` set d \<Longrightarrow> dict_setitem d k v = d @ [(k, v)]"
  by (induction d) auto

lemma OrderedDict_update_pairs:
  "distinct (map fst ps) \<Longrightarrow> list_all hashable (map fst ps) \<Longrightarrow>
   fst ` set d \<inter> fst ` set ps = {} \<Longrightarrow>
   OrderedDict_update d (map (\<lambda>(k, v). PTuple [k, v]) ps) = Inr (d @ ps)"
proof (induction ps arbitrary: d)
  case Nil
  then show ?case by simp
next
  case (Cons p ps)
  obtain k v where p: "p = (k, v)" by (cases p)
  from Cons.prems have fresh: "k \<notin> fst ` set d" by (auto simp: p)
  have "fst ` set (d @ [(k, v)]) \<inter> fst ` set ps = {}"
    using Cons.prems by (auto simp: p)
  with Cons.IH [of "d @ [(k, v)]"] Cons.prems fresh show ?case
    by (simp add: p dict_setitem_fresh)
qed

lemma OrderedDict_pairs:
  "distinct (map fst ps) \<Longrightarrow> list_all hashable (map fst ps) \<Longrightarrow>
   OrderedDict (map (\<lambda>(k, v). PTuple [k, v]) ps) = Inr (PDict ps)"
  using OrderedDict_update_pairs [of ps "[]"] by (simp add: OrderedDict_def)

lemma BaseFilter_filter_eq:
  "BaseFilter_filter val fc sub_key st =
     (fst (run_chain fc val), record_errors (map (under sub_key) (snd (run_chain fc val))) st)"
  by (simp add: BaseFilter_filter_def split: prod.splits)

lemma restrict_admits_hashable:
  "hashable k \<Longrightarrow> restrict_admits self k = Inr (case restrict_keys self of None \<Rightarrow> True | Some S \<Rightarrow> k \<in> S)"
  by (simp add: restrict_admits_def py_set_contains_def split: option.splits)

lemma iter_sequence_eq:
  "FilterRepeater_iter_sequence env self i xs st =
     Inr (map (\<lambda>(j, v). if restrict_admits self (PInt (int j)) = Inr True
                         then fst (run_chain (filter_chain self) v)
                         else invalid_placeholder env) (List.enumerate i xs),
          record_errors
            (concat (map (\<lambda>(j, v). if restrict_admits self (PInt (int j)) = Inr True
                         then map (under (Some (PStr (unicodify_key env (PInt (int j))))))
                                (snd (run_chain (filter_chain self) v))
                         else [FilterErr CODE_EXTRA_KEY v [PStr (unicodify_key env (PInt (int j)))]])
                     (List.enumerate i xs))) st)"
proof (induction xs arbitrary: i st)
  case Nil
  then show ?case by simp
next
  case (Cons v xs)
  show ?case
    by (simp add: Cons.IH restrict_admits_hashable FilterRepeater_apply_item_def
        BaseFilter_filter_eq BaseFilter_invalid_value_def Let_def)
qed

lemma iter_mapping_eq:
  "list_all hashable (map fst kvs) \<Longrightarrow>
   FilterRepeater_iter_mapping env self kvs st =
     Inr (map (\<lambda>(k, v). PTuple [k, fst (run_chain (filter_chain self) v)])
            (filter (\<lambda>(k, v). restrict_admits self k = Inr True) kvs),
          record_errors
            (concat (map (\<lambda>(k, v). if restrict_admits self k = Inr True
                         then map (under (Some (PStr (unicodify_key env k))))
                                (snd (run_chain (filter_chain self) v))
                         else [FilterErr CODE_EXTRA_KEY v [PStr (unicodify_key env k)]])
                     kvs)) st)"
proof (induction kvs arbitrary: st)
  case Nil
  then show ?case by simp
next
  case (Cons p kvs)
  obtain k v where p: "p = (k, v)" by (cases p)
  from Cons.prems have h: "hashable k" and rest: "list_all hashable (map fst kvs)"
    by (simp_all add: p)
  show ?case
    by (simp add: p Cons.IH [OF rest] restrict_admits_hashable [OF h] FilterRepeater_apply_item_def
        BaseFilter_filter_eq BaseFilter_invalid_value_def Let_def)
qed

lemma missing_key_allowed_total:
  "missing_key_allowed self key =
     Inr (case allow_missing_keys self of PolicyBool b \<Rightarrow> b | PolicySet S \<Rightarrow> hashable key \<and> key \<in> S)"
  by (cases "allow_missing_keys self")
     (auto simp: missing_key_allowed_def py_set_contains_def)

lemma extra_key_allowed_total:
  "extra_key_allowed self key =
     Inr (case allow_extra_keys self of PolicyBool b \<Rightarrow> b | PolicySet S \<Rightarrow> hashable key \<and> key \<in> S)"
  by (cases "allow_extra_keys self")
     (auto simp: extra_key_allowed_def py_set_contains_def)

lemma missing_key_allowed_cases:
  "missing_key_allowed self key = Inr True \<or> missing_key_allowed self key = Inr False"
  by (simp add: missing_key_allowed_total)

lemma extra_key_allowed_cases:
  "extra_key_allowed self key = Inr True \<or> extra_key_allowed self key = Inr False"
  by (simp add: extra_key_allowed_total)

lemma py_dict_getitem_present:
  "hashable k \<Longrightarrow> k \<in> fst ` set kvs \<Longrightarrow> py_dict_getitem kvs k = Inr (the (map_of kvs k))"
  by (auto simp: py_dict_getitem_def map_of_eq_None_iff split: option.splits)

lemma iter_declared_eq:
  "list_all hashable (map fst fs) \<Longrightarrow>
   FilterMapper_iter_declared env self kvs fs st =
     Inr (map (\<lambda>kf. PTuple [fst kf, declared_value env self kvs kf]) fs,
          record_errors (concat (map (declared_errors self kvs) fs)) st)"
proof (induction fs arbitrary: st)
  case Nil
  then show ?case by simp
next
  case (Cons kf fs)
  obtain key fc where kf: "kf = (key, fc)" by (cases kf)
  from Cons.prems have h: "hashable key" and rest: "list_all hashable (map fst fs)"
    by (simp_all add: kf)
  show ?case
  proof (cases "key \<in> fst ` set kvs")
    case True
    then show ?thesis
      using h
      by (simp add: kf Cons.IH [OF rest] py_dict_contains_def py_dict_getitem_present
          FilterMapper_apply_item_def BaseFilter_filter_eq declared_value_def declared_errors_def)
  next
    case False
    then show ?thesis
      using h missing_key_allowed_cases [of self key]
      by (auto simp: kf Cons.IH [OF rest] py_dict_contains_def
          FilterMapper_apply_item_def BaseFilter_filter_eq BaseFilter_invalid_value_def
          declared_value_def declared_errors_def)
  qed
qed

lemma iter_extra_eq:
  "list_all hashable ks \<Longrightarrow> set ks \<subseteq> fst ` set kvs \<Longrightarrow>
   FilterMapper_iter_extra env self kvs ks st =
     Inr (map (\<lambda>k. PTuple [k, the (map_of kvs k)])
            (filter (\<lambda>k. extra_key_allowed self k = Inr True) ks),
          record_errors
            (map (\<lambda>k. FilterErr CODE_EXTRA_KEY (the (map_of kvs k)) [PStr (unicodify_key env k)])
               (filter (\<lambda>k. extra_key_allowed self k \<noteq> Inr True) ks)) st)"
proof (induction ks arbitrary: st)
  case Nil
  then show ?case by simp
next
  case (Cons k ks)
  from Cons.prems have h: "hashable k" and rest: "list_all hashable ks"
    and mem: "k \<in> fst ` set kvs" and sub: "set ks \<subseteq> fst ` set kvs"
    by simp_all
  show ?case
    using extra_key_allowed_cases [of self k]
    by (auto simp: Cons.IH [OF rest sub] py_dict_getitem_present [OF h mem]
        BaseFilter_invalid_value_def)
qed

lemma Type_passes:
  "P val \<Longrightarrow> BaseFilter_filter val (Type P) None st = (val, st)"
  by (simp add: BaseFilter_filter_def run_chain_def Type_def)

lemma Type_fails:
  "\<not> P val \<Longrightarrow> BaseFilter_filter val (Type P) None st =
     (PNone, record_errors [FilterErr TYPE_MISMATCH val []] st)"
  by (simp add: BaseFilter_filter_def run_chain_def Type_def under_def)

lemma extra_keys_eq:
  "list_all hashable vks \<Longrightarrow> list_all hashable fks \<Longrightarrow>
   extra_keys env vks fks = Inr (set_order env (filter (\<lambda>k. k \<notin> set fks) (remdups vks)))"
  by (simp add: extra_keys_def)

lemma set_order_props:
  assumes "set_order_ok env"
  shows "distinct (set_order env (filter (\<lambda>k. k \<notin> set fks) (remdups vks)))"
    and "set (set_order env (filter (\<lambda>k. k \<notin> set fks) (remdups vks))) = set vks - set fks"
proof -
  have d: "distinct (filter (\<lambda>k. k \<notin> set fks) (remdups vks))" by simp
  from assms d show "distinct (set_order env (filter (\<lambda>k. k \<notin> set fks) (remdups vks)))"
    unfolding set_order_ok_def by blast
  from assms d have "set (set_order env (filter (\<lambda>k. k \<notin> set fks) (remdups vks)))
      = set (filter (\<lambda>k. k \<notin> set fks) (remdups vks))"
    unfolding set_order_ok_def by blast
  then show "set (set_order env (filter (\<lambda>k. k \<notin> set fks) (remdups vks))) = set vks - set fks"
    by auto
qed

lemma mapper_extras_props:
  assumes "set_order_ok env"
  shows "distinct (mapper_extras env self kvs)"
    and "set (mapper_extras env self kvs) = set (map fst kvs) - set (map fst (filters self))"
  unfolding mapper_extras_def using set_order_props [OF assms] by blast+

lemma list_all_hashable_subset:
  "list_all hashable xs \<Longrightarrow> set ys \<subseteq> set xs \<Longrightarrow> list_all hashable ys"
  by (auto simp: list_all_iff)

lemma mapper_apply_eq:
  assumes env: "set_order_ok env" and st: "\<not> has_errors st"
    and fd: "distinct (map fst (filters self))"
    and fh: "list_all hashable (map fst (filters self))"
    and vh: "list_all hashable (map fst kvs)"
  shows "FilterMapper_apply env self (PDict kvs) st =
     Inr (PDict (map (\<lambda>kf. (fst kf, declared_value env self kvs kf)) (filters self)
                 @ map (\<lambda>k. (k, the (map_of kvs k)))
                     (filter (\<lambda>k. extra_key_allowed self k = Inr True) (mapper_extras env self kvs))),
          record_errors
            (concat (map (declared_errors self kvs) (filters self))
             @ map (\<lambda>k. FilterErr CODE_EXTRA_KEY (the (map_of kvs k)) [PStr (unicodify_key env k)])
                 (filter (\<lambda>k. extra_key_allowed self k \<noteq> Inr True) (mapper_extras env self kvs)))
            st)"
proof -
  let ?xs = "mapper_extras env self kvs"
  let ?ps1 = "map (\<lambda>kf. (fst kf, declared_value env self kvs kf)) (filters self)"
  let ?ps2 = "map (\<lambda>k. (k, the (map_of kvs k))) (filter (\<lambda>k. extra_key_allowed self k = Inr True) ?xs)"
  have xs_d: "distinct ?xs" and xs_s: "set ?xs = set (map fst kvs) - set (map fst (filters self))"
    using mapper_extras_props [OF env] by blast+
  have xs_h: "list_all hashable ?xs"
    using vh xs_s by (auto simp: list_all_iff)
  have xs_sub: "set ?xs \<subseteq> fst ` set kvs"
    using xs_s by auto
  have ek: "extra_keys env (map fst kvs) (map fst (filters self)) = Inr ?xs"
    using extra_keys_eq [OF vh fh] by (simp add: mapper_extras_def)
  have k1: "map fst ?ps1 = map fst (filters self)" by (simp add: comp_def)
  have k2: "map fst ?ps2 = filter (\<lambda>k. extra_key_allowed self k = Inr True) ?xs"
    by (simp add: comp_def)
  have dis: "distinct (map fst (?ps1 @ ?ps2))"
    using fd xs_d xs_s unfolding map_append k1 k2 by auto
  have hs: "list_all hashable (map fst (?ps1 @ ?ps2))"
    using fh xs_h unfolding map_append k1 k2 by (auto simp: list_all_iff)
  have items: "map (\<lambda>kf. PTuple [fst kf, declared_value env self kvs kf]) (filters self)
        @ map (\<lambda>k. PTuple [k, the (map_of kvs k)]) (filter (\<lambda>k. extra_key_allowed self k = Inr True) ?xs)
      = map (\<lambda>(k, v). PTuple [k, v]) (?ps1 @ ?ps2)"
    by (simp add: comp_def)
  have od: "OrderedDict (map (\<lambda>(k, v). PTuple [k, v]) (?ps1 @ ?ps2)) = Inr (PDict (?ps1 @ ?ps2))"
    by (rule OrderedDict_pairs [OF dis hs])
  have it: "FilterMapper_iter env self (PDict kvs) st =
      Inr (map (\<lambda>(k, v). PTuple [k, v]) (?ps1 @ ?ps2),
           record_errors
            (concat (map (declared_errors self kvs) (filters self))
             @ map (\<lambda>k. FilterErr CODE_EXTRA_KEY (the (map_of kvs k)) [PStr (unicodify_key env k)])
                 (filter (\<lambda>k. extra_key_allowed self k \<noteq> Inr True) ?xs))
            st)"
    unfolding items [symmetric]
    by (simp add: FilterMapper_iter_def iter_declared_eq [OF fh] ek iter_extra_eq [OF xs_h xs_sub])
  have ty: "BaseFilter_filter (PDict kvs) (Type is_mapping) None st = (PDict kvs, st)"
    by (simp add: Type_passes)
  show ?thesis
    unfolding FilterMapper_apply_def
    by (simp only: ty prod.case Let_def st if_False it sum.case od)
qed

lemma declared_errors_head:
  "e \<in> set (declared_errors self kvs kf) \<Longrightarrow> path e \<noteq> [] \<and> hd (path e) = fst kf"
  by (auto simp: declared_errors_def under_def split: if_splits)

lemma filter_concat_declared:
  assumes "distinct (map fst fs)" and "kf \<in> set fs"
    and "\<And>e. P e \<Longrightarrow> path e \<noteq> [] \<and> hd (path e) = fst kf"
  shows "filter P (concat (map (declared_errors self kvs) fs)) = filter P (declared_errors self kvs kf)"
  using assms(1,2)
proof (induction fs)
  case Nil
  then show ?case by simp
next
  case (Cons a fs)
  have none: "filter P (declared_errors self kvs b) = []" if "fst b \<noteq> fst kf" for b
  proof -
    have "\<not> P e" if "e \<in> set (declared_errors self kvs b)" for e
      using declared_errors_head [OF that] assms(3) [of e] \<open>fst b \<noteq> fst kf\<close> by auto
    then show ?thesis by (simp add: filter_empty_conv)
  qed
  show ?case
  proof (cases "a = kf")
    case True
    with Cons.prems have "\<forall>b\<in>set fs. fst b \<noteq> fst kf" by (auto simp: image_iff)
    then have "filter P (concat (map (declared_errors self kvs) fs)) = []"
      by (induction fs) (auto simp: none)
    with True show ?thesis by simp
  next
    case False
    with Cons.prems have "kf \<in> set fs" and "fst a \<noteq> fst kf" by (auto simp: image_iff)
    with Cons show ?thesis by (simp add: none)
  qed
qed

lemma map_of_declared:
  "distinct (map fst fs) \<Longrightarrow> kf \<in> set fs \<Longrightarrow>
   map_of (map (\<lambda>kf. (fst kf, f kf)) fs @ rest) (fst kf) = Some (f kf)"
  by (induction fs) (auto simp: rev_image_eqI)

lemma example_env_ok: "set_order_ok example_env"
  by (simp add: set_order_ok_def example_env_def)

lemma set_order_Nil: "set_order_ok env \<Longrightarrow> set_order env [] = []"
  unfolding set_order_ok_def
proof -
  assume "\<forall>xs. distinct xs \<longrightarrow> distinct (set_order env xs) \<and> set (set_order env xs) = set xs"
  then have "set (set_order env []) = set []" by (metis distinct.simps(1))
  then show ?thesis by simp
qed

lemma mapper_extras_Nil: "set_order_ok env \<Longrightarrow> mapper_extras env self [] = []"
  by (simp add: mapper_extras_def set_order_Nil)

lemma filter_extra_errors_missing:
  "filter (\<lambda>e. reason e = CODE_MISSING_KEY \<and> Q e)
     (map (\<lambda>k. FilterErr CODE_EXTRA_KEY (f k) (g k)) ks) = []"
  by (induction ks) auto

lemma distinct_fst_unique:
  "distinct (map fst fs) \<Longrightarrow> kf \<in> set fs \<Longrightarrow> (key, fc) \<in> set fs \<Longrightarrow> fst kf = key
     \<Longrightarrow> kf = (key, fc)"
  by (metis eq_key_imp_eq_value prod.collapse)

lemma extra_rejected_iff:
  "(extra_key_allowed self k \<noteq> Inr True) = (extra_key_allowed self k = Inr False)"
  using extra_key_allowed_cases [of self k] by auto

lemma py_iter_iterable: "py_iter val = Inr xs \<Longrightarrow> is_iterable val \<and> val \<noteq> PNone"
  by (cases val) auto

lemma enumerate_nth_map: "List.enumerate 0 xs = map (\<lambda>i. (i, xs ! i)) [0..<length xs]"
  by (rule nth_equalityI) (simp_all add: nth_enumerate_eq)

lemma repeater_apply_sequence_eq:
  assumes "\<not> has_errors st" and "\<not> is_mapping val" and "py_iter val = Inr xs"
  shows "FilterRepeater_apply env self val st =
     Inr (PList (map (\<lambda>(j, v). if restrict_admits self (PInt (int j)) = Inr True
                         then fst (run_chain (filter_chain self) v)
                         else invalid_placeholder env) (List.enumerate 0 xs)),
          record_errors
            (concat (map (\<lambda>(j, v). if restrict_admits self (PInt (int j)) = Inr True
                         then map (under (Some (PStr (unicodify_key env (PInt (int j))))))
                                (snd (run_chain (filter_chain self) v))
                         else [FilterErr CODE_EXTRA_KEY v [PStr (unicodify_key env (PInt (int j)))]])
                     (List.enumerate 0 xs))) st)"
proof -
  from py_iter_iterable [OF assms(3)] have it: "is_iterable val" and nn: "val \<noteq> PNone" by simp_all
  have ty: "BaseFilter_filter val (Type is_iterable) None st = (val, st)"
    by (simp add: Type_passes it)
  have nd: "(case val of PDict kvs \<Rightarrow> f kvs | _ \<Rightarrow> g) = g" for f :: "(pyval \<times> pyval) list \<Rightarrow> 'x" and g
    using assms(2) by (cases val) simp_all
  have iter: "FilterRepeater_iter env self val st = FilterRepeater_iter_sequence env self 0 xs st"
    by (simp add: FilterRepeater_iter_def nn nd assms(3))
  show ?thesis
    unfolding FilterRepeater_apply_def
    by (simp only: ty prod.case Let_def assms(1,2) if_False iter iter_sequence_eq sum.case)
qed

lemma repeater_apply_mapping_items:
  assumes "\<not> has_errors st" and "list_all hashable (map fst kvs)"
  shows "FilterRepeater_apply env self (PDict kvs) st =
     (case OrderedDict (map (\<lambda>(k, v). PTuple [k, v])
              (map (\<lambda>(k, v). (k, fst (run_chain (filter_chain self) v)))
                 (filter (\<lambda>(k, v). restrict_admits self k = Inr True) kvs))) of
        Inl e \<Rightarrow> Inl e
      | Inr d \<Rightarrow> Inr (d,
          record_errors
            (concat (map (\<lambda>(k, v). if restrict_admits self k = Inr True
                         then map (under (Some (PStr (unicodify_key env k))))
                                (snd (run_chain (filter_chain self) v))
                         else [FilterErr CODE_EXTRA_KEY v [PStr (unicodify_key env k)]])
                     kvs)) st))"
proof -
  have ty: "BaseFilter_filter (PDict kvs) (Type is_iterable) None st = (PDict kvs, st)"
    by (simp add: Type_passes)
  have iter: "FilterRepeater_iter env self (PDict kvs) st = FilterRepeater_iter_mapping env self kvs st"
    by (simp add: FilterRepeater_iter_def)
  have m: "map (\<lambda>(k, v). PTuple [k, fst (run_chain (filter_chain self) v)])
            (filter (\<lambda>(k, v). restrict_admits self k = Inr True) kvs)
      = map (\<lambda>(k, v). PTuple [k, v])
              (map (\<lambda>(k, v). (k, fst (run_chain (filter_chain self) v)))
                 (filter (\<lambda>(k, v). restrict_admits self k = Inr True) kvs))"
    by (simp add: comp_def case_prod_beta)
  have mp: "is_mapping (PDict kvs)" by simp
  show ?thesis
    unfolding FilterRepeater_apply_def
    by (simp only: ty prod.case Let_def assms(1) if_False iter iter_mapping_eq [OF assms(2)]
        sum.case mp if_True m)
qed

lemma admitted_keys_wf:
  assumes "distinct (map fst kvs)" and "list_all hashable (map fst kvs)"
  shows "distinct (map fst (map (\<lambda>(k, v). (k, f v)) (filter P kvs)))"
    and "list_all hashable (map fst (map (\<lambda>(k, v). (k, f v)) (filter P kvs)))"
proof -
  have e: "map fst (map (\<lambda>(k, v). (k, f v)) (filter P kvs)) = map fst (filter P kvs)"
    by (simp add: comp_def case_prod_beta)
  show "distinct (map fst (map (\<lambda>(k, v). (k, f v)) (filter P kvs)))"
    unfolding e using assms(1) by (rule distinct_map_filter)
  show "list_all hashable (map fst (map (\<lambda>(k, v). (k, f v)) (filter P kvs)))"
    unfolding e using assms(2) by (auto simp: list_all_iff)
qed

lemma repeater_apply_mapping_eq:
  assumes "\<not> has_errors st" and "distinct (map fst kvs)" and "list_all hashable (map fst kvs)"
  shows "FilterRepeater_apply env self (PDict kvs) st =
     Inr (PDict (map (\<lambda>(k, v). (k, fst (run_chain (filter_chain self) v)))
                   (filter (\<lambda>(k, v). restrict_admits self k = Inr True) kvs)),
          record_errors
            (concat (map (\<lambda>(k, v). if restrict_admits self k = Inr True
                         then map (under (Some (PStr (unicodify_key env k))))
                                (snd (run_chain (filter_chain self) v))
                         else [FilterErr CODE_EXTRA_KEY v [PStr (unicodify_key env k)]])
                     kvs)) st)"
  unfolding repeater_apply_mapping_items [OF assms(1,3)]
  by (simp only: OrderedDict_pairs [OF admitted_keys_wf [OF assms(2,3)]] sum.case)

lemma restrict_empty_rejects:
  "restrict_keys self = Some {} \<Longrightarrow> restrict_admits self k \<noteq> Inr True"
  by (simp add: restrict_admits_def py_set_contains_def)

section \<open>The claims\<close>

text \<open>
  The theorems about an application to a mapping assume what Python guarantees of the
  dicts involved: the keys of \<open>filter_map\<close> are hashable and pairwise distinct, and the
  keys of the input are hashable (and distinct where the order of the output depends on
  it). They assume that iterating a set visits each of its elements once
  (\<open>set_order_ok\<close>) and that \<open>_has_errors\<close> is clear when \<open>_apply\<close> starts. Without these
  the model raises, as Python does, or returns \<open>None\<close>.
\<close>

subsection \<open>FilterMapper\<close>

text \<open>
  C1. Applied to a mapping, a \<open>FilterMapper\<close> returns an ordered mapping whose keys are
  the keys of \<open>filter_map\<close> in their declared order, every one of them, followed by
  the extra keys of the input that the extra-key policy admits, each once.
\<close>

theorem mapper_output_key_order:
  assumes "set_order_ok env" and "\<not> has_errors st"
    and "distinct (map fst (filters self))"
    and "list_all hashable (map fst (filters self))"
    and "list_all hashable (map fst kvs)"
  shows "\<exists>out st' extras.
      FilterMapper_apply env self (PDict kvs) st = Inr (PDict out, st')
    \<and> map fst out = map fst (filters self) @ extras
    \<and> distinct extras
    \<and> set extras = {k \<in> set (map fst kvs) - set (map fst (filters self)).
                       extra_key_allowed self k = Inr True}"
proof -
  let ?xs = "mapper_extras env self kvs"
  let ?ex = "filter (\<lambda>k. extra_key_allowed self k = Inr True) ?xs"
  have d: "distinct ?ex" using mapper_extras_props(1) [OF assms(1)] by simp
  have s: "set ?ex = {k \<in> set (map fst kvs) - set (map fst (filters self)).
                       extra_key_allowed self k = Inr True}"
    using mapper_extras_props(2) [OF assms(1), of self kvs] by auto
  show ?thesis
    unfolding mapper_apply_eq [OF assms]
    apply (intro exI conjI)
       apply (rule refl)
      prefer 2 apply (rule d)
     prefer 2 apply (rule s)
    apply (simp add: comp_def)
    done
qed

text \<open>The schema \<open>{a, b}\<close> applied to \<open>{z: 3, b: 2}\<close> with both policies allow-all.\<close>

theorem mapper_output_key_order_witness:
  "set_order_ok example_env \<and> \<not> has_errors example_st
   \<and> distinct (map fst [(PStr ''a'', None :: filter_chain), (PStr ''b'', None)])
   \<and> list_all hashable (map fst [(PStr ''a'', None :: filter_chain), (PStr ''b'', None)])
   \<and> list_all hashable (map fst [(PStr ''z'', PInt 3), (PStr ''b'', PInt 2)])
   \<and> (\<exists>out st' extras.
      FilterMapper_apply example_env
        \<lparr>filters = [(PStr ''a'', None), (PStr ''b'', None)],
         allow_missing_keys = PolicyBool True, allow_extra_keys = PolicyBool True\<rparr>
        (PDict [(PStr ''z'', PInt 3), (PStr ''b'', PInt 2)]) example_st = Inr (PDict out, st')
    \<and> map fst out = [PStr ''a'', PStr ''b''] @ extras
    \<and> distinct extras
    \<and> set extras = {PStr ''z''})"
proof -
  let ?self = "\<lparr>filters = [(PStr ''a'', None), (PStr ''b'', None)],
         allow_missing_keys = PolicyBool True, allow_extra_keys = PolicyBool True\<rparr>"
  have h1: "\<not> has_errors example_st" by (simp add: example_st_def)
  have h2: "distinct (map fst (filters ?self))" by simp
  have h3: "list_all hashable (map fst (filters ?self))" by simp
  have h4: "list_all hashable (map fst [(PStr ''z'', PInt 3), (PStr ''b'', PInt 2)])" by simp
  have e: "{k \<in> set (map fst [(PStr ''z'', PInt 3), (PStr ''b'', PInt 2)]) - set (map fst (filters ?self)).
             extra_key_allowed ?self k = Inr True} = {PStr ''z''}"
    by (auto simp: extra_key_allowed_def)
  show ?thesis
    using mapper_output_key_order [OF example_env_ok h1 h2 h3 h4] example_env_ok h1
    unfolding e by simp
qed

text \<open>
  C2. A declared key that is absent from the input and that the missing-key policy does
  not permit: the application records exactly one \<open>missing\<close> error tagged with the key,
  and the output binds the key to the invalid-value placeholder. In particular the schema
  \<open>{a: identity}\<close> with the policy disallow-all, applied to \<open>{}\<close>, returns
  \<open>{a: <invalid>}\<close> and records the one error \<open>missing\<close> tagged \<open>a\<close>.
\<close>

theorem mapper_missing_key_rejected:
  assumes "set_order_ok env" and "\<not> has_errors st"
    and "distinct (map fst (filters self))"
    and "list_all hashable (map fst (filters self))"
    and "list_all hashable (map fst kvs)"
    and "(key, fc) \<in> set (filters self)"
    and "key \<notin> set (map fst kvs)"
    and "missing_key_allowed self key = Inr False"
  shows "(\<exists>out st' new.
        FilterMapper_apply env self (PDict kvs) st = Inr (PDict out, st')
      \<and> errors st' = errors st @ new
      \<and> filter (\<lambda>e. reason e = CODE_MISSING_KEY \<and> path e = [key]) new
          = [FilterErr CODE_MISSING_KEY PNone [key]]
      \<and> map_of out key = Some (invalid_placeholder env))
    \<and> FilterMapper_apply env
        \<lparr>filters = [(PStr ''a'', None)], allow_missing_keys = PolicyBool False,
         allow_extra_keys = ae\<rparr> (PDict []) st
      = Inr (PDict [(PStr ''a'', invalid_placeholder env)],
             st\<lparr>errors := errors st @ [FilterErr CODE_MISSING_KEY PNone [PStr ''a'']],
                has_errors := True\<rparr>)"
proof (rule conjI)
  let ?P = "\<lambda>e. reason e = CODE_MISSING_KEY \<and> path e = [key]"
  let ?new = "concat (map (declared_errors self kvs) (filters self))
             @ map (\<lambda>k. FilterErr CODE_EXTRA_KEY (the (map_of kvs k)) [PStr (unicodify_key env k)])
                 (filter (\<lambda>k. extra_key_allowed self k \<noteq> Inr True) (mapper_extras env self kvs))"
  have own: "declared_errors self kvs (key, fc) = [FilterErr CODE_MISSING_KEY PNone [key]]"
    using assms(7,8) by (simp add: declared_errors_def)
  have "filter ?P (concat (map (declared_errors self kvs) (filters self)))
      = filter ?P (declared_errors self kvs (key, fc))"
    by (rule filter_concat_declared [OF assms(3) assms(6)]) simp
  then have f: "filter ?P ?new = [FilterErr CODE_MISSING_KEY PNone [key]]"
    by (simp add: own filter_extra_errors_missing)
  have v: "declared_value env self kvs (key, fc) = invalid_placeholder env"
    using assms(7,8) by (simp add: declared_value_def)
  have m: "map_of (map (\<lambda>kf. (fst kf, declared_value env self kvs kf)) (filters self)
                 @ map (\<lambda>k. (k, the (map_of kvs k)))
                     (filter (\<lambda>k. extra_key_allowed self k = Inr True) (mapper_extras env self kvs)))
             key = Some (invalid_placeholder env)"
    using map_of_declared [OF assms(3) assms(6), of "declared_value env self kvs"] v by simp
  show "\<exists>out st' new.
        FilterMapper_apply env self (PDict kvs) st = Inr (PDict out, st')
      \<and> errors st' = errors st @ new
      \<and> filter ?P new = [FilterErr CODE_MISSING_KEY PNone [key]]
      \<and> map_of out key = Some (invalid_placeholder env)"
    unfolding mapper_apply_eq [OF assms(1-5)]
    apply (intro exI conjI)
       apply (rule refl)
      apply (rule errors_record_errors)
     apply (rule f)
    apply (rule m)
    done
next
  let ?self = "\<lparr>filters = [(PStr ''a'', None)], allow_missing_keys = PolicyBool False,
         allow_extra_keys = ae\<rparr>"
  have "FilterMapper_apply env ?self (PDict []) st
      = Inr (PDict [(PStr ''a'', invalid_placeholder env)],
             record_errors [FilterErr CODE_MISSING_KEY PNone [PStr ''a'']] st)"
    using mapper_apply_eq [OF assms(1,2), of ?self "[]"]
    by (simp add: mapper_extras_Nil [OF assms(1)] declared_value_def declared_errors_def
        missing_key_allowed_def)
  then show "FilterMapper_apply env ?self (PDict []) st
      = Inr (PDict [(PStr ''a'', invalid_placeholder env)],
             st\<lparr>errors := errors st @ [FilterErr CODE_MISSING_KEY PNone [PStr ''a'']],
                has_errors := True\<rparr>)"
    by (simp add: record_errors_def)
qed

text \<open>The example of the specification, in the instance.\<close>

theorem mapper_missing_key_rejected_witness:
  "set_order_ok example_env \<and> \<not> has_errors example_st
   \<and> distinct (map fst (filters \<lparr>filters = [(PStr ''a'', None)],
         allow_missing_keys = PolicyBool False, allow_extra_keys = PolicyBool False\<rparr>))
   \<and> list_all hashable (map fst (filters \<lparr>filters = [(PStr ''a'', None)],
         allow_missing_keys = PolicyBool False, allow_extra_keys = PolicyBool False\<rparr>))
   \<and> list_all hashable (map fst ([] :: (pyval \<times> pyval) list))
   \<and> (PStr ''a'', None) \<in> set (filters \<lparr>filters = [(PStr ''a'', None)],
         allow_missing_keys = PolicyBool False, allow_extra_keys = PolicyBool False\<rparr>)
   \<and> PStr ''a'' \<notin> set (map fst ([] :: (pyval \<times> pyval) list))
   \<and> missing_key_allowed \<lparr>filters = [(PStr ''a'', None)],
         allow_missing_keys = PolicyBool False, allow_extra_keys = PolicyBool False\<rparr> (PStr ''a'')
       = Inr False
   \<and> FilterMapper_apply example_env
        \<lparr>filters = [(PStr ''a'', None)], allow_missing_keys = PolicyBool False,
         allow_extra_keys = PolicyBool False\<rparr> (PDict []) example_st
      = Inr (PDict [(PStr ''a'', PStr ''<invalid>'')],
             \<lparr>errors = [FilterErr CODE_MISSING_KEY PNone [PStr ''a'']], has_errors = True\<rparr>)"
proof -
  let ?self = "\<lparr>filters = [(PStr ''a'', None :: filter_chain)],
         allow_missing_keys = PolicyBool False, allow_extra_keys = PolicyBool False\<rparr>"
  have h1: "set_order_ok example_env"
    by (simp add: set_order_ok_def example_env_def)
  have h2: "\<not> has_errors example_st" by (simp add: example_st_def)
  have h3: "distinct (map fst (filters ?self))" by simp
  have h4: "list_all hashable (map fst (filters ?self))" by simp
  have h5: "list_all hashable (map fst ([] :: (pyval \<times> pyval) list))" by simp
  have h6: "(PStr ''a'', None) \<in> set (filters ?self)" by simp
  have h7: "PStr ''a'' \<notin> set (map fst ([] :: (pyval \<times> pyval) list))" by simp
  have h8: "missing_key_allowed ?self (PStr ''a'') = Inr False"
    by (simp add: missing_key_allowed_def)
  have "FilterMapper_apply example_env ?self (PDict []) example_st
      = Inr (PDict [(PStr ''a'', PStr ''<invalid>'')],
             \<lparr>errors = [FilterErr CODE_MISSING_KEY PNone [PStr ''a'']], has_errors = True\<rparr>)"
    using mapper_missing_key_rejected [OF h1 h2 h3 h4 h5 h6 h7 h8, of "PolicyBool False"]
    by (simp add: example_env_def example_st_def)
  with h1 h2 h3 h4 h5 h6 h7 h8 show ?thesis by blast
qed

text \<open>
  C3. A declared key that is absent from the input and that the missing-key policy
  permits: the chain of the key is applied to \<open>None\<close> and the output binds the key to
  the result. The mapper records no \<open>missing\<close> error for the key, and the chain runs
  "as normal": every error the chain reports on \<open>None\<close> is recorded under the key, and an
  error recorded under the key is one of these, or else the \<open>unexpected\<close> error of a
  rejected extra key whose text is the key. So no error is recorded under the key
  where the chain reports none on \<open>None\<close> and no rejected extra key has the key as its
  text. In particular the schema \<open>{a: identity}\<close> with the policy allow-all, applied to
  \<open>{}\<close>, returns \<open>{a: None}\<close> and records nothing.
\<close>

theorem mapper_missing_key_allowed:
  assumes "set_order_ok env" and "\<not> has_errors st"
    and "distinct (map fst (filters self))"
    and "list_all hashable (map fst (filters self))"
    and "list_all hashable (map fst kvs)"
    and "(key, fc) \<in> set (filters self)"
    and "key \<notin> set (map fst kvs)"
    and "missing_key_allowed self key = Inr True"
  shows "(\<exists>out st' new.
        FilterMapper_apply env self (PDict kvs) st = Inr (PDict out, st')
      \<and> errors st' = errors st @ new
      \<and> map_of out key = Some (fst (run_chain fc PNone))
      \<and> (\<forall>e\<in>set (snd (run_chain fc PNone)). under (Some key) e \<in> set new)
      \<and> (\<forall>e\<in>set new. path e \<noteq> [] \<and> hd (path e) = key \<longrightarrow>
            e \<in> set (map (under (Some key)) (snd (run_chain fc PNone)))
          \<or> (\<exists>k. k \<in> set (map fst kvs) \<and> k \<notin> set (map fst (filters self))
                \<and> extra_key_allowed self k = Inr False
                \<and> PStr (unicodify_key env k) = key
                \<and> e = FilterErr CODE_EXTRA_KEY (the (map_of kvs k)) [key]))
      \<and> (snd (run_chain fc PNone) = []
          \<and> (\<forall>k. k \<in> set (map fst kvs) \<and> k \<notin> set (map fst (filters self))
                \<and> extra_key_allowed self k = Inr False
                \<longrightarrow> PStr (unicodify_key env k) \<noteq> key)
          \<longrightarrow> (\<forall>e\<in>set new. path e = [] \<or> hd (path e) \<noteq> key)))
    \<and> FilterMapper_apply env
        \<lparr>filters = [(PStr ''a'', None)], allow_missing_keys = PolicyBool True,
         allow_extra_keys = ae\<rparr> (PDict []) st
      = Inr (PDict [(PStr ''a'', PNone)], st)"
proof (rule conjI)
  let ?D = "concat (map (declared_errors self kvs) (filters self))"
  let ?R = "filter (\<lambda>k. extra_key_allowed self k \<noteq> Inr True) (mapper_extras env self kvs)"
  let ?X = "map (\<lambda>k. FilterErr CODE_EXTRA_KEY (the (map_of kvs k)) [PStr (unicodify_key env k)]) ?R"
  let ?C = "map (under (Some key)) (snd (run_chain fc PNone))"
  let ?collide = "\<lambda>e. \<exists>k. k \<in> set (map fst kvs) \<and> k \<notin> set (map fst (filters self))
                \<and> extra_key_allowed self k = Inr False
                \<and> PStr (unicodify_key env k) = key
                \<and> e = FilterErr CODE_EXTRA_KEY (the (map_of kvs k)) [key]"
  have own: "declared_errors self kvs (key, fc) = ?C"
    using assms(7,8) by (simp add: declared_errors_def)
  have sup: "under (Some key) e \<in> set (?D @ ?X)" if "e \<in> set (snd (run_chain fc PNone))" for e
  proof -
    from that have "under (Some key) e \<in> set (declared_errors self kvs (key, fc))"
      unfolding own by simp
    with assms(6) have "under (Some key) e \<in> set ?D" by force
    then show ?thesis by simp
  qed
  have e: "e \<in> set ?C \<or> ?collide e"
    if "e \<in> set (?D @ ?X)" and "path e \<noteq> [] \<and> hd (path e) = key" for e
  proof (cases "e \<in> set ?X")
    case True
    then obtain k where k: "k \<in> set ?R"
      and ek: "e = FilterErr CODE_EXTRA_KEY (the (map_of kvs k)) [PStr (unicodify_key env k)]"
      by auto
    from k have "k \<in> set (mapper_extras env self kvs)"
      and rej: "extra_key_allowed self k = Inr False"
      by (simp_all add: extra_rejected_iff)
    then have mem: "k \<in> set (map fst kvs)" "k \<notin> set (map fst (filters self))"
      using mapper_extras_props(2) [OF assms(1), of self kvs] by simp_all
    from ek that(2) have "PStr (unicodify_key env k) = key" by simp
    with ek mem rej have "?collide e" by blast
    then show ?thesis ..
  next
    case False
    with that(1) obtain kf where kf: "kf \<in> set (filters self)"
      and ekf: "e \<in> set (declared_errors self kvs kf)" by auto
    from declared_errors_head [OF ekf] that(2) have "fst kf = key" by simp
    with distinct_fst_unique [OF assms(3) kf assms(6)] have "kf = (key, fc)" by simp
    with ekf own show ?thesis by simp
  qed
  have lit: "path e = [] \<or> hd (path e) \<noteq> key"
    if "snd (run_chain fc PNone) = []"
      and "\<forall>k. k \<in> set (map fst kvs) \<and> k \<notin> set (map fst (filters self))
                \<and> extra_key_allowed self k = Inr False
                \<longrightarrow> PStr (unicodify_key env k) \<noteq> key"
      and "e \<in> set (?D @ ?X)" for e
  proof (rule ccontr)
    assume "\<not> (path e = [] \<or> hd (path e) \<noteq> key)"
    then have "path e \<noteq> [] \<and> hd (path e) = key" by simp
    from e [OF that(3) this] that(1) have "?collide e" by simp
    with that(2) show False by blast
  qed
  have v: "declared_value env self kvs (key, fc) = fst (run_chain fc PNone)"
    using assms(7,8) by (simp add: declared_value_def)
  have m: "map_of (map (\<lambda>kf. (fst kf, declared_value env self kvs kf)) (filters self)
                 @ map (\<lambda>k. (k, the (map_of kvs k)))
                     (filter (\<lambda>k. extra_key_allowed self k = Inr True) (mapper_extras env self kvs)))
             key = Some (fst (run_chain fc PNone))"
    using map_of_declared [OF assms(3) assms(6), of "declared_value env self kvs"] v by simp
  show "\<exists>out st' new.
        FilterMapper_apply env self (PDict kvs) st = Inr (PDict out, st')
      \<and> errors st' = errors st @ new
      \<and> map_of out key = Some (fst (run_chain fc PNone))
      \<and> (\<forall>e\<in>set (snd (run_chain fc PNone)). under (Some key) e \<in> set new)
      \<and> (\<forall>e\<in>set new. path e \<noteq> [] \<and> hd (path e) = key \<longrightarrow> e \<in> set ?C \<or> ?collide e)
      \<and> (snd (run_chain fc PNone) = []
          \<and> (\<forall>k. k \<in> set (map fst kvs) \<and> k \<notin> set (map fst (filters self))
                \<and> extra_key_allowed self k = Inr False
                \<longrightarrow> PStr (unicodify_key env k) \<noteq> key)
          \<longrightarrow> (\<forall>e\<in>set new. path e = [] \<or> hd (path e) \<noteq> key))"
    unfolding mapper_apply_eq [OF assms(1-5)]
    apply (intro exI conjI)
         apply (rule refl)
        apply (rule errors_record_errors)
       apply (rule m)
    using sup apply blast
    using e apply blast
    using lit apply blast
    done
next
  let ?self = "\<lparr>filters = [(PStr ''a'', None)], allow_missing_keys = PolicyBool True,
         allow_extra_keys = ae\<rparr>"
  show "FilterMapper_apply env ?self (PDict []) st = Inr (PDict [(PStr ''a'', PNone)], st)"
    using mapper_apply_eq [OF assms(1,2), of ?self "[]"]
    by (simp add: mapper_extras_Nil [OF assms(1)] declared_value_def declared_errors_def
        missing_key_allowed_def run_chain_def)
qed

text \<open>The schema \<open>{a: rejects_none}\<close> with the policy allow-all, applied to \<open>{}\<close>, and
  the example of the specification.\<close>

theorem mapper_missing_key_allowed_witness:
  "set_order_ok example_env \<and> \<not> has_errors example_st
   \<and> distinct (map fst (filters \<lparr>filters = [(PStr ''a'', rejects_none)],
         allow_missing_keys = PolicyBool True, allow_extra_keys = PolicyBool True\<rparr>))
   \<and> list_all hashable (map fst (filters \<lparr>filters = [(PStr ''a'', rejects_none)],
         allow_missing_keys = PolicyBool True, allow_extra_keys = PolicyBool True\<rparr>))
   \<and> list_all hashable (map fst ([] :: (pyval \<times> pyval) list))
   \<and> (PStr ''a'', rejects_none) \<in> set (filters \<lparr>filters = [(PStr ''a'', rejects_none)],
         allow_missing_keys = PolicyBool True, allow_extra_keys = PolicyBool True\<rparr>)
   \<and> PStr ''a'' \<notin> set (map fst ([] :: (pyval \<times> pyval) list))
   \<and> missing_key_allowed \<lparr>filters = [(PStr ''a'', rejects_none)],
         allow_missing_keys = PolicyBool True, allow_extra_keys = PolicyBool True\<rparr> (PStr ''a'')
       = Inr True
   \<and> (\<exists>out st'.
        FilterMapper_apply example_env
          \<lparr>filters = [(PStr ''a'', rejects_none)], allow_missing_keys = PolicyBool True,
           allow_extra_keys = PolicyBool True\<rparr> (PDict []) example_st = Inr (PDict out, st')
      \<and> map_of out (PStr ''a'') = Some PNone
      \<and> FilterErr ''required'' PNone [PStr ''a''] \<in> set (errors st'))
   \<and> FilterMapper_apply example_env
        \<lparr>filters = [(PStr ''a'', None)], allow_missing_keys = PolicyBool True,
         allow_extra_keys = PolicyBool True\<rparr> (PDict []) example_st
      = Inr (PDict [(PStr ''a'', PNone)], \<lparr>errors = [], has_errors = False\<rparr>)"
proof -
  let ?self = "\<lparr>filters = [(PStr ''a'', rejects_none)],
         allow_missing_keys = PolicyBool True, allow_extra_keys = PolicyBool True\<rparr>"
  let ?kvs = "[] :: (pyval \<times> pyval) list"
  have h1: "set_order_ok example_env"
    by (simp add: set_order_ok_def example_env_def)
  have h2: "\<not> has_errors example_st" by (simp add: example_st_def)
  have h3: "distinct (map fst (filters ?self))" by simp
  have h4: "list_all hashable (map fst (filters ?self))" by simp
  have h5: "list_all hashable (map fst ?kvs)" by simp
  have h6: "(PStr ''a'', rejects_none) \<in> set (filters ?self)" by simp
  have h7: "PStr ''a'' \<notin> set (map fst ?kvs)" by simp
  have h8: "missing_key_allowed ?self (PStr ''a'') = Inr True"
    by (simp add: missing_key_allowed_def)
  have rc: "run_chain rejects_none PNone = (PNone, [FilterErr ''required'' PNone []])"
    by (simp add: run_chain_def rejects_none_def)
  note t = mapper_missing_key_allowed [OF h1 h2 h3 h4 h5 h6 h7 h8, of "PolicyBool True"]
  from t obtain out st' new where
    a: "FilterMapper_apply example_env ?self (PDict ?kvs) example_st = Inr (PDict out, st')"
    and e: "errors st' = errors example_st @ new"
    and m: "map_of out (PStr ''a'') = Some (fst (run_chain rejects_none PNone))"
    and c: "\<forall>e\<in>set (snd (run_chain rejects_none PNone)). under (Some (PStr ''a'')) e \<in> set new"
    by blast
  from m have m': "map_of out (PStr ''a'') = Some PNone" by (simp add: rc)
  from c have "FilterErr ''required'' PNone [PStr ''a''] \<in> set new"
    by (simp add: rc under_def)
  with e have c': "FilterErr ''required'' PNone [PStr ''a''] \<in> set (errors st')" by simp
  from a m' c' have g: "\<exists>out st'.
        FilterMapper_apply example_env ?self (PDict []) example_st = Inr (PDict out, st')
      \<and> map_of out (PStr ''a'') = Some PNone
      \<and> FilterErr ''required'' PNone [PStr ''a''] \<in> set (errors st')"
    by blast
  from t have x: "FilterMapper_apply example_env
        \<lparr>filters = [(PStr ''a'', None)], allow_missing_keys = PolicyBool True,
         allow_extra_keys = PolicyBool True\<rparr> (PDict []) example_st
      = Inr (PDict [(PStr ''a'', PNone)], \<lparr>errors = [], has_errors = False\<rparr>)"
    by (simp add: example_st_def)
  from h1 h2 h3 h4 h5 h6 h7 h8 g x show ?thesis by blast
qed

text \<open>
  That no error at all is recorded for such a key does not hold of every chain: with the
  policy allow-all the schema \<open>{a: rejects_none}\<close>, applied to \<open>{}\<close>, records the error
  of the chain under \<open>a\<close>.
\<close>

theorem mapper_missing_key_allowed_counterexample:
  "(PStr ''a'', rejects_none)
      \<in> set (filters \<lparr>filters = [(PStr ''a'', rejects_none)],
            allow_missing_keys = PolicyBool True, allow_extra_keys = PolicyBool True\<rparr>)
   \<and> PStr ''a'' \<notin> set (map fst ([] :: (pyval \<times> pyval) list))
   \<and> missing_key_allowed \<lparr>filters = [(PStr ''a'', rejects_none)],
         allow_missing_keys = PolicyBool True, allow_extra_keys = PolicyBool True\<rparr> (PStr ''a'')
       = Inr True
   \<and> FilterMapper_apply example_env
        \<lparr>filters = [(PStr ''a'', rejects_none)], allow_missing_keys = PolicyBool True,
         allow_extra_keys = PolicyBool True\<rparr> (PDict []) example_st
      = Inr (PDict [(PStr ''a'', PNone)],
             \<lparr>errors = [FilterErr ''required'' PNone [PStr ''a'']], has_errors = True\<rparr>)"
  by (simp add: FilterMapper_apply_def FilterMapper_iter_def BaseFilter_filter_def Type_def
      run_chain_def py_dict_contains_def missing_key_allowed_def FilterMapper_apply_item_def
      extra_keys_def example_env_def example_st_def record_errors_def under_def OrderedDict_def
      rejects_none_def)

text \<open>
  C4. The extra keys of the input are handled after the loop over the declared keys has
  ended, each once: the output is what that loop yields followed by the admitted extra
  keys with their values unchanged, and the errors are those of that loop followed by
  one \<open>unexpected\<close> error, tagged with the text of the key, for each rejected extra key.
  A rejected key is not in the output.
\<close>

theorem mapper_extra_keys:
  assumes "set_order_ok env" and "\<not> has_errors st"
    and "distinct (map fst (filters self))"
    and "list_all hashable (map fst (filters self))"
    and "list_all hashable (map fst kvs)"
  shows "\<exists>out1 st1 extras st'.
      FilterMapper_iter_declared env self kvs (filters self) st
        = Inr (map (\<lambda>(k, v). PTuple [k, v]) out1, st1)
    \<and> map fst out1 = map fst (filters self)
    \<and> distinct extras
    \<and> set extras = set (map fst kvs) - set (map fst (filters self))
    \<and> FilterMapper_apply env self (PDict kvs) st
        = Inr (PDict (out1 @ map (\<lambda>k. (k, the (map_of kvs k)))
                              (filter (\<lambda>k. extra_key_allowed self k = Inr True) extras)), st')
    \<and> errors st' = errors st1
        @ map (\<lambda>k. FilterErr CODE_EXTRA_KEY (the (map_of kvs k)) [PStr (unicodify_key env k)])
            (filter (\<lambda>k. extra_key_allowed self k = Inr False) extras)"
proof -
  let ?out1 = "map (\<lambda>kf. (fst kf, declared_value env self kvs kf)) (filters self)"
  let ?st1 = "record_errors (concat (map (declared_errors self kvs) (filters self))) st"
  let ?xs = "mapper_extras env self kvs"
  have p1: "FilterMapper_iter_declared env self kvs (filters self) st
      = Inr (map (\<lambda>(k, v). PTuple [k, v]) ?out1, ?st1)"
    by (simp add: iter_declared_eq [OF assms(4)] comp_def)
  have k1: "map fst ?out1 = map fst (filters self)" by (simp add: comp_def)
  show ?thesis
    apply (rule exI [of _ ?out1])
    apply (rule exI [of _ ?st1])
    apply (rule exI [of _ ?xs])
    unfolding mapper_apply_eq [OF assms]
    apply (intro exI conjI)
         apply (rule p1)
        apply (rule k1)
       apply (rule mapper_extras_props(1) [OF assms(1)])
      apply (rule mapper_extras_props(2) [OF assms(1)])
     apply (rule refl)
    apply (simp add: extra_rejected_iff)
    done
qed

text \<open>The schema \<open>{a: identity}\<close> with extra keys disallowed, applied to \<open>{a: 1, b: 2}\<close>.\<close>

theorem mapper_extra_keys_witness:
  "set_order_ok example_env \<and> \<not> has_errors example_st
   \<and> distinct (map fst (filters \<lparr>filters = [(PStr ''a'', None)],
         allow_missing_keys = PolicyBool True, allow_extra_keys = PolicyBool False\<rparr>))
   \<and> list_all hashable (map fst (filters \<lparr>filters = [(PStr ''a'', None)],
         allow_missing_keys = PolicyBool True, allow_extra_keys = PolicyBool False\<rparr>))
   \<and> list_all hashable (map fst [(PStr ''a'', PInt 1), (PStr ''b'', PInt 2)])
   \<and> (\<exists>st'. FilterMapper_apply example_env
        \<lparr>filters = [(PStr ''a'', None)], allow_missing_keys = PolicyBool True,
         allow_extra_keys = PolicyBool False\<rparr>
        (PDict [(PStr ''a'', PInt 1), (PStr ''b'', PInt 2)]) example_st
      = Inr (PDict [(PStr ''a'', PInt 1)], st')
      \<and> errors st' = [FilterErr CODE_EXTRA_KEY (PInt 2) [PStr ''b'']])"
proof -
  let ?self = "\<lparr>filters = [(PStr ''a'', None :: filter_chain)],
         allow_missing_keys = PolicyBool True, allow_extra_keys = PolicyBool False\<rparr>"
  let ?kvs = "[(PStr ''a'', PInt 1), (PStr ''b'', PInt 2)]"
  have h1: "set_order_ok example_env"
    by (simp add: set_order_ok_def example_env_def)
  have h2: "\<not> has_errors example_st" by (simp add: example_st_def)
  have h3: "distinct (map fst (filters ?self))" by simp
  have h4: "list_all hashable (map fst (filters ?self))" by simp
  have h5: "list_all hashable (map fst ?kvs)" by simp
  from mapper_extra_keys [OF h1 h2 h3 h4 h5]
  obtain out1 st1 extras st' where
    p1: "FilterMapper_iter_declared example_env ?self ?kvs (filters ?self) example_st
        = Inr (map (\<lambda>(k, v). PTuple [k, v]) out1, st1)"
    and d: "distinct extras"
    and s: "set extras = set (map fst ?kvs) - set (map fst (filters ?self))"
    and a: "FilterMapper_apply example_env ?self (PDict ?kvs) example_st
        = Inr (PDict (out1 @ map (\<lambda>k. (k, the (map_of ?kvs k)))
                              (filter (\<lambda>k. extra_key_allowed ?self k = Inr True) extras)), st')"
    and e: "errors st' = errors st1
        @ map (\<lambda>k. FilterErr CODE_EXTRA_KEY (the (map_of ?kvs k)) [PStr (unicodify_key example_env k)])
            (filter (\<lambda>k. extra_key_allowed ?self k = Inr False) extras)"
    by blast
  have "set extras = {PStr ''b''}" using s by auto
  with d have ex: "extras = [PStr ''b'']"
    by (metis distinct.simps(2) distinct_singleton empty_set insert_iff list.exhaust list.simps(15)
        set_ConsD singletonD)
  from p1 have o1: "out1 = [(PStr ''a'', PInt 1)]" and s1: "st1 = example_st"
    by (auto simp: py_dict_contains_def py_dict_getitem_def FilterMapper_apply_item_def
        BaseFilter_filter_def run_chain_def map_eq_Cons_conv)
  have "FilterMapper_apply example_env ?self (PDict ?kvs) example_st
      = Inr (PDict [(PStr ''a'', PInt 1)], st')"
    using a by (simp add: ex o1 extra_key_allowed_def)
  moreover have "errors st' = [FilterErr CODE_EXTRA_KEY (PInt 2) [PStr ''b'']]"
    using e by (simp add: ex s1 extra_key_allowed_def unicodify_key_def example_env_def
        example_st_def)
  ultimately have "\<exists>st'. FilterMapper_apply example_env ?self (PDict ?kvs) example_st
      = Inr (PDict [(PStr ''a'', PInt 1)], st')
      \<and> errors st' = [FilterErr CODE_EXTRA_KEY (PInt 2) [PStr ''b'']]"
    by blast
  with h1 h2 h3 h4 h5 show ?thesis by blast
qed

text \<open>
  C10. The tag of an error depends on its kind: the \<open>missing\<close> error of a declared key
  carries the key object itself, the \<open>unexpected\<close> error of an extra key carries the text
  of the key, and no error carries the object of a rejected extra key that is not text.
  For a key that is not text the two tags differ.
\<close>

theorem mapper_error_tags:
  assumes "set_order_ok env" and "\<not> has_errors st"
    and "distinct (map fst (filters self))"
    and "list_all hashable (map fst (filters self))"
    and "list_all hashable (map fst kvs)"
  shows "\<exists>out st' new.
      FilterMapper_apply env self (PDict kvs) st = Inr (PDict out, st')
    \<and> errors st' = errors st @ new
    \<and> (\<forall>k fc. (k, fc) \<in> set (filters self) \<and> k \<notin> set (map fst kvs)
                \<and> missing_key_allowed self k = Inr False
          \<longrightarrow> FilterErr CODE_MISSING_KEY PNone [k] \<in> set new)
    \<and> (\<forall>k. k \<in> set (map fst kvs) \<and> k \<notin> set (map fst (filters self))
              \<and> extra_key_allowed self k = Inr False
          \<longrightarrow> FilterErr CODE_EXTRA_KEY (the (map_of kvs k)) [PStr (unicodify_key env k)] \<in> set new
            \<and> ((\<forall>s. k \<noteq> PStr s) \<longrightarrow> (\<forall>e\<in>set new. path e \<noteq> [k])))
    \<and> (\<forall>k. (\<forall>s. k \<noteq> PStr s) \<longrightarrow> [PStr (unicodify_key env k)] \<noteq> [k])"
proof -
  let ?D = "concat (map (declared_errors self kvs) (filters self))"
  let ?R = "filter (\<lambda>k. extra_key_allowed self k \<noteq> Inr True) (mapper_extras env self kvs)"
  let ?X = "map (\<lambda>k. FilterErr CODE_EXTRA_KEY (the (map_of kvs k)) [PStr (unicodify_key env k)]) ?R"
  have miss: "FilterErr CODE_MISSING_KEY PNone [k] \<in> set (?D @ ?X)"
    if "(k, fc) \<in> set (filters self)" and "k \<notin> set (map fst kvs)"
      and "missing_key_allowed self k = Inr False" for k fc
  proof -
    have "declared_errors self kvs (k, fc) = [FilterErr CODE_MISSING_KEY PNone [k]]"
      using that(2,3) by (simp add: declared_errors_def)
    with that(1) have "FilterErr CODE_MISSING_KEY PNone [k] \<in> set ?D" by force
    then show ?thesis by simp
  qed
  have extra: "FilterErr CODE_EXTRA_KEY (the (map_of kvs k)) [PStr (unicodify_key env k)]
        \<in> set (?D @ ?X)"
    if "k \<in> set (map fst kvs)" and "k \<notin> set (map fst (filters self))"
      and "extra_key_allowed self k = Inr False" for k
  proof -
    from that(1,2) have "k \<in> set (mapper_extras env self kvs)"
      using mapper_extras_props(2) [OF assms(1), of self kvs] by simp
    with that(3) have "k \<in> set ?R" by simp
    then have "FilterErr CODE_EXTRA_KEY (the (map_of kvs k)) [PStr (unicodify_key env k)] \<in> set ?X"
      by (rule imageI [of k "set ?R", unfolded set_map [symmetric]])
    then show ?thesis by simp
  qed
  have notk: "path e \<noteq> [k]"
    if "k \<notin> set (map fst (filters self))" and "\<forall>s. k \<noteq> PStr s" and "e \<in> set (?D @ ?X)" for k e
  proof (cases "e \<in> set ?X")
    case True
    with that(2) show ?thesis by auto
  next
    case False
    with that(3) obtain kf where kf: "kf \<in> set (filters self)"
      and ekf: "e \<in> set (declared_errors self kvs kf)" by auto
    from declared_errors_head [OF ekf] have "hd (path e) = fst kf" by simp
    moreover from kf that(1) have "fst kf \<noteq> k" by force
    ultimately show ?thesis by auto
  qed
  show ?thesis
    unfolding mapper_apply_eq [OF assms]
    apply (intro exI conjI)
        apply (rule refl)
       apply (rule errors_record_errors)
    using miss apply blast
    using extra notk apply blast
    apply (simp, metis)
    done
qed

text \<open>The declared key \<open>1\<close> is missing and the extra key \<open>2\<close> is rejected.\<close>

theorem mapper_error_tags_witness:
  "set_order_ok example_env \<and> \<not> has_errors example_st
   \<and> distinct (map fst (filters \<lparr>filters = [(PInt 1, None)],
         allow_missing_keys = PolicyBool False, allow_extra_keys = PolicyBool False\<rparr>))
   \<and> list_all hashable (map fst (filters \<lparr>filters = [(PInt 1, None)],
         allow_missing_keys = PolicyBool False, allow_extra_keys = PolicyBool False\<rparr>))
   \<and> list_all hashable (map fst [(PInt 2, PStr ''x'')])
   \<and> (\<exists>out st' new.
        FilterMapper_apply example_env
          \<lparr>filters = [(PInt 1, None)], allow_missing_keys = PolicyBool False,
           allow_extra_keys = PolicyBool False\<rparr> (PDict [(PInt 2, PStr ''x'')]) example_st
          = Inr (PDict out, st')
      \<and> errors st' = new
      \<and> FilterErr CODE_MISSING_KEY PNone [PInt 1] \<in> set new
      \<and> FilterErr CODE_EXTRA_KEY (PStr ''x'') [PStr ''2''] \<in> set new
      \<and> (\<forall>e\<in>set new. path e \<noteq> [PInt 2]))"
proof -
  let ?self = "\<lparr>filters = [(PInt 1, None :: filter_chain)],
         allow_missing_keys = PolicyBool False, allow_extra_keys = PolicyBool False\<rparr>"
  let ?kvs = "[(PInt 2, PStr ''x'')]"
  have h1: "set_order_ok example_env"
    by (simp add: set_order_ok_def example_env_def)
  have h2: "\<not> has_errors example_st" by (simp add: example_st_def)
  have h3: "distinct (map fst (filters ?self))" by simp
  have h4: "list_all hashable (map fst (filters ?self))" by simp
  have h5: "list_all hashable (map fst ?kvs)" by simp
  have m: "(PInt 1, None) \<in> set (filters ?self) \<and> PInt 1 \<notin> set (map fst ?kvs)
      \<and> missing_key_allowed ?self (PInt 1) = Inr False"
    by (simp add: missing_key_allowed_def)
  have x: "PInt 2 \<in> set (map fst ?kvs) \<and> PInt 2 \<notin> set (map fst (filters ?self))
      \<and> extra_key_allowed ?self (PInt 2) = Inr False"
    by (simp add: extra_key_allowed_def)
  have u: "unicodify_key example_env (PInt 2) = ''2''"
    by (simp add: unicodify_key_def example_env_def text_of_int_def text_of_nat.simps)
  from mapper_error_tags [OF h1 h2 h3 h4 h5]
  obtain out st' new where
    a: "FilterMapper_apply example_env ?self (PDict ?kvs) example_st = Inr (PDict out, st')"
    and e: "errors st' = errors example_st @ new"
    and c1: "\<forall>k fc. (k, fc) \<in> set (filters ?self) \<and> k \<notin> set (map fst ?kvs)
                \<and> missing_key_allowed ?self k = Inr False
          \<longrightarrow> FilterErr CODE_MISSING_KEY PNone [k] \<in> set new"
    and c2: "\<forall>k. k \<in> set (map fst ?kvs) \<and> k \<notin> set (map fst (filters ?self))
              \<and> extra_key_allowed ?self k = Inr False
          \<longrightarrow> FilterErr CODE_EXTRA_KEY (the (map_of ?kvs k)) [PStr (unicodify_key example_env k)]
                \<in> set new
            \<and> ((\<forall>s. k \<noteq> PStr s) \<longrightarrow> (\<forall>e\<in>set new. path e \<noteq> [k]))"
    by blast
  from c1 m have r1: "FilterErr CODE_MISSING_KEY PNone [PInt 1] \<in> set new" by blast
  from c2 x have "FilterErr CODE_EXTRA_KEY (the (map_of ?kvs (PInt 2)))
        [PStr (unicodify_key example_env (PInt 2))] \<in> set new
      \<and> ((\<forall>s. PInt 2 \<noteq> PStr s) \<longrightarrow> (\<forall>e\<in>set new. path e \<noteq> [PInt 2]))"
    by blast
  then have r2: "FilterErr CODE_EXTRA_KEY (PStr ''x'') [PStr ''2''] \<in> set new"
    and r3: "\<forall>e\<in>set new. path e \<noteq> [PInt 2]"
    by (simp_all add: u)
  from e have e': "errors st' = new" by (simp add: example_st_def)
  from a e' r1 r2 r3 have "\<exists>out st' new.
        FilterMapper_apply example_env ?self (PDict ?kvs) example_st = Inr (PDict out, st')
      \<and> errors st' = new
      \<and> FilterErr CODE_MISSING_KEY PNone [PInt 1] \<in> set new
      \<and> FilterErr CODE_EXTRA_KEY (PStr ''x'') [PStr ''2''] \<in> set new
      \<and> (\<forall>e\<in>set new. path e \<noteq> [PInt 2])"
    by blast
  with h1 h2 h3 h4 h5 show ?thesis by blast
qed

subsection \<open>FilterRepeater\<close>

text \<open>
  C5. Applied to an iterable that is not a mapping, a \<open>FilterRepeater\<close> returns a list
  with one element for each element of the input, in the order of the input: at an
  index that the restriction admits, the result of the chain on the element; at an index
  that it rejects, the invalid-value placeholder, with one \<open>unexpected\<close> error tagged with
  the text of the index. With no restriction the output is the input with the chain
  applied to each element, in the same order.
\<close>

theorem repeater_sequence:
  assumes "\<not> has_errors st" and "\<not> is_mapping val" and "py_iter val = Inr xs"
  shows "\<exists>out st'.
      FilterRepeater_apply env self val st = Inr (PList out, st')
    \<and> length out = length xs
    \<and> (\<forall>i<length xs.
          out ! i = (if restrict_admits self (PInt (int i)) = Inr True
                     then fst (run_chain (filter_chain self) (xs ! i))
                     else invalid_placeholder env))
    \<and> errors st' = errors st
        @ concat (map (\<lambda>i. if restrict_admits self (PInt (int i)) = Inr True
                         then map (under (Some (PStr (unicodify_key env (PInt (int i))))))
                                (snd (run_chain (filter_chain self) (xs ! i)))
                         else [FilterErr CODE_EXTRA_KEY (xs ! i)
                                 [PStr (unicodify_key env (PInt (int i)))]])
                    [0..<length xs])
    \<and> (restrict_keys self = None \<longrightarrow>
          out = map (\<lambda>v. fst (run_chain (filter_chain self) v)) xs)"
proof -
  have all: "restrict_admits self k = Inr True" if "restrict_keys self = None" for k
    using that by (simp add: restrict_admits_def)
  have un: "map (\<lambda>(j, v). if restrict_admits self (PInt (int j)) = Inr True
                         then fst (run_chain (filter_chain self) v)
                         else invalid_placeholder env) (List.enumerate 0 xs)
      = map (\<lambda>v. fst (run_chain (filter_chain self) v)) xs" if "restrict_keys self = None"
    by (rule nth_equalityI) (simp_all add: nth_enumerate_eq all [OF that])
  show ?thesis
    unfolding repeater_apply_sequence_eq [OF assms]
    apply (intro exI conjI)
        apply (rule refl)
       apply simp
      apply (simp add: nth_enumerate_eq)
     apply (simp add: enumerate_nth_map comp_def)
    using un apply blast
    done
qed

text \<open>The example of the specification: \<open>restrict_keys = {0}\<close> and the input \<open>[10, 20]\<close>.\<close>

theorem repeater_sequence_witness:
  "\<not> has_errors example_st \<and> \<not> is_mapping (PList [PInt 10, PInt 20])
   \<and> py_iter (PList [PInt 10, PInt 20]) = Inr [PInt 10, PInt 20]
   \<and> (\<exists>st'. FilterRepeater_apply example_env
          \<lparr>filter_chain = None, restrict_keys = Some {PInt 0}\<rparr>
          (PList [PInt 10, PInt 20]) example_st
        = Inr (PList [PInt 10, PStr ''<invalid>''], st')
      \<and> errors st' = [FilterErr CODE_EXTRA_KEY (PInt 20) [PStr ''1'']])"
proof -
  let ?self = "\<lparr>filter_chain = None, restrict_keys = Some {PInt 0}\<rparr>"
  let ?xs = "[PInt 10, PInt 20]"
  have h1: "\<not> has_errors example_st" by (simp add: example_st_def)
  have h2: "\<not> is_mapping (PList ?xs)" by simp
  have h3: "py_iter (PList ?xs) = Inr ?xs" by simp
  have u: "unicodify_key example_env (PInt 1) = ''1''"
    by (simp add: unicodify_key_def example_env_def text_of_int_def text_of_nat.simps)
  have a0: "restrict_admits ?self (PInt 0) = Inr True"
    and a1: "restrict_admits ?self (PInt 1) = Inr False"
    by (simp_all add: restrict_admits_def py_set_contains_def)
  from repeater_sequence [OF h1 h2 h3, of example_env ?self]
  obtain out st' where
    a: "FilterRepeater_apply example_env ?self (PList ?xs) example_st = Inr (PList out, st')"
    and l: "length out = length ?xs"
    and n: "\<forall>i<length ?xs.
          out ! i = (if restrict_admits ?self (PInt (int i)) = Inr True
                     then fst (run_chain (filter_chain ?self) (?xs ! i))
                     else invalid_placeholder example_env)"
    and e: "errors st' = errors example_st
        @ concat (map (\<lambda>i. if restrict_admits ?self (PInt (int i)) = Inr True
                         then map (under (Some (PStr (unicodify_key example_env (PInt (int i))))))
                                (snd (run_chain (filter_chain ?self) (?xs ! i)))
                         else [FilterErr CODE_EXTRA_KEY (?xs ! i)
                                 [PStr (unicodify_key example_env (PInt (int i)))]])
                    [0..<length ?xs])"
    by blast
  from n have "out ! 0 = PInt 10" and "out ! 1 = PStr ''<invalid>''"
    by (simp_all add: a0 a1 run_chain_def example_env_def)
  with l have o: "out = [PInt 10, PStr ''<invalid>'']"
    by (cases out; cases "tl out"; cases "tl (tl out)") auto
  have up: "[0..<length ?xs] = [0, 1]" by (simp add: upt_rec)
  from e have e': "errors st' = [FilterErr CODE_EXTRA_KEY (PInt 20) [PStr ''1'']]"
    unfolding up by (simp add: a0 a1 u run_chain_def example_st_def)
  from a o e' have "\<exists>st'. FilterRepeater_apply example_env ?self (PList ?xs) example_st
        = Inr (PList [PInt 10, PStr ''<invalid>''], st')
      \<and> errors st' = [FilterErr CODE_EXTRA_KEY (PInt 20) [PStr ''1'']]"
    by blast
  with h1 h2 h3 show ?thesis by blast
qed

text \<open>
  C6. Applied to a mapping, a \<open>FilterRepeater\<close> returns an ordered mapping with one
  entry for each key that the restriction admits, under the key object itself, in the
  order of the input, the chain applied to its value. A key that the restriction
  rejects has no entry, and one \<open>unexpected\<close> error tagged with the text of the key.
\<close>

theorem repeater_mapping:
  assumes "\<not> has_errors st" and "distinct (map fst kvs)" and "list_all hashable (map fst kvs)"
  shows "\<exists>st'.
      FilterRepeater_apply env self (PDict kvs) st
        = Inr (PDict (map (\<lambda>(k, v). (k, fst (run_chain (filter_chain self) v)))
                        (filter (\<lambda>(k, v). restrict_admits self k = Inr True) kvs)), st')
    \<and> errors st' = errors st
        @ concat (map (\<lambda>(k, v). if restrict_admits self k = Inr True
                         then map (under (Some (PStr (unicodify_key env k))))
                                (snd (run_chain (filter_chain self) v))
                         else [FilterErr CODE_EXTRA_KEY v [PStr (unicodify_key env k)]])
                    kvs)"
  unfolding repeater_apply_mapping_eq [OF assms]
  by (intro exI conjI) (rule refl, rule errors_record_errors)

text \<open>A mapping with the keys \<open>7\<close>, \<open>b\<close> and \<open>None\<close>, restricted to \<open>{None, 7}\<close>.\<close>

theorem repeater_mapping_witness:
  "\<not> has_errors example_st
   \<and> distinct (map fst [(PInt 7, PStr ''x''), (PStr ''b'', PInt 2), (PNone, PInt 3)])
   \<and> list_all hashable (map fst [(PInt 7, PStr ''x''), (PStr ''b'', PInt 2), (PNone, PInt 3)])
   \<and> (\<exists>st'. FilterRepeater_apply example_env
          \<lparr>filter_chain = None, restrict_keys = Some {PNone, PInt 7}\<rparr>
          (PDict [(PInt 7, PStr ''x''), (PStr ''b'', PInt 2), (PNone, PInt 3)]) example_st
        = Inr (PDict [(PInt 7, PStr ''x''), (PNone, PInt 3)], st')
      \<and> errors st' = [FilterErr CODE_EXTRA_KEY (PInt 2) [PStr ''b'']])"
proof -
  let ?self = "\<lparr>filter_chain = None, restrict_keys = Some {PNone, PInt 7}\<rparr>"
  let ?kvs = "[(PInt 7, PStr ''x''), (PStr ''b'', PInt 2), (PNone, PInt 3)]"
  have h1: "\<not> has_errors example_st" by (simp add: example_st_def)
  have h2: "distinct (map fst ?kvs)" by simp
  have h3: "list_all hashable (map fst ?kvs)" by simp
  have "\<exists>st'. FilterRepeater_apply example_env ?self (PDict ?kvs) example_st
        = Inr (PDict [(PInt 7, PStr ''x''), (PNone, PInt 3)], st')
      \<and> errors st' = [FilterErr CODE_EXTRA_KEY (PInt 2) [PStr ''b'']]"
    using repeater_mapping [OF h1 h2 h3, of example_env ?self]
    by (simp add: restrict_admits_def py_set_contains_def run_chain_def unicodify_key_def
        example_env_def example_st_def)
  with h1 h2 h3 show ?thesis by blast
qed

text \<open>
  C7. With the empty set as \<open>restrict_keys\<close> every key and every index is rejected:
  a mapping gives the empty mapping, a sequence gives a list of placeholders as long
  as the input, and in both cases each element of the input has its one \<open>unexpected\<close>
  error.
\<close>

theorem repeater_empty_restriction:
  assumes "restrict_keys self = Some {}" and "\<not> has_errors st"
  shows "(list_all hashable (map fst kvs) \<longrightarrow>
          (\<exists>st'. FilterRepeater_apply env self (PDict kvs) st = Inr (PDict [], st')
              \<and> errors st' = errors st
                  @ map (\<lambda>(k, v). FilterErr CODE_EXTRA_KEY v [PStr (unicodify_key env k)]) kvs))
    \<and> (\<not> is_mapping val \<and> py_iter val = Inr xs \<longrightarrow>
          (\<exists>st'. FilterRepeater_apply env self val st
                  = Inr (PList (replicate (length xs) (invalid_placeholder env)), st')
              \<and> errors st' = errors st
                  @ map (\<lambda>i. FilterErr CODE_EXTRA_KEY (xs ! i)
                               [PStr (unicodify_key env (PInt (int i)))]) [0..<length xs]))"
proof (intro conjI impI)
  assume h: "list_all hashable (map fst kvs)"
  have f: "filter (\<lambda>(k, v). restrict_admits self k = Inr True) kvs = []"
    by (simp add: filter_empty_conv restrict_empty_rejects [OF assms(1)] case_prod_beta)
  have c: "concat (map (\<lambda>(k, v). if restrict_admits self k = Inr True
                         then map (under (Some (PStr (unicodify_key env k))))
                                (snd (run_chain (filter_chain self) v))
                         else [FilterErr CODE_EXTRA_KEY v [PStr (unicodify_key env k)]]) kvs)
      = map (\<lambda>(k, v). FilterErr CODE_EXTRA_KEY v [PStr (unicodify_key env k)]) kvs"
    by (induction kvs) (auto simp: restrict_empty_rejects [OF assms(1)])
  show "\<exists>st'. FilterRepeater_apply env self (PDict kvs) st = Inr (PDict [], st')
      \<and> errors st' = errors st
          @ map (\<lambda>(k, v). FilterErr CODE_EXTRA_KEY v [PStr (unicodify_key env k)]) kvs"
    unfolding repeater_apply_mapping_items [OF assms(2) h] f
    by (simp add: OrderedDict_def c)
next
  assume h: "\<not> is_mapping val \<and> py_iter val = Inr xs"
  have o: "map (\<lambda>(j, v). if restrict_admits self (PInt (int j)) = Inr True
                         then fst (run_chain (filter_chain self) v)
                         else invalid_placeholder env) (List.enumerate 0 xs)
      = replicate (length xs) (invalid_placeholder env)"
    by (rule nth_equalityI)
       (simp_all add: nth_enumerate_eq restrict_empty_rejects [OF assms(1)])
  have c: "concat (map (\<lambda>(j, v). if restrict_admits self (PInt (int j)) = Inr True
                         then map (under (Some (PStr (unicodify_key env (PInt (int j))))))
                                (snd (run_chain (filter_chain self) v))
                         else [FilterErr CODE_EXTRA_KEY v [PStr (unicodify_key env (PInt (int j)))]])
                     (List.enumerate 0 xs))
      = map (\<lambda>i. FilterErr CODE_EXTRA_KEY (xs ! i) [PStr (unicodify_key env (PInt (int i)))])
          [0..<length xs]"
    unfolding enumerate_nth_map
    by (induction "[0..<length xs]")
       (auto simp: restrict_empty_rejects [OF assms(1)] comp_def intro!: arg_cong [of _ _ concat])
  from h have h1: "\<not> is_mapping val" and h2: "py_iter val = Inr xs" by simp_all
  show "\<exists>st'. FilterRepeater_apply env self val st
                  = Inr (PList (replicate (length xs) (invalid_placeholder env)), st')
      \<and> errors st' = errors st
          @ map (\<lambda>i. FilterErr CODE_EXTRA_KEY (xs ! i)
                       [PStr (unicodify_key env (PInt (int i)))]) [0..<length xs]"
    unfolding repeater_apply_sequence_eq [OF assms(2) h1 h2] o c
    by simp
qed

text \<open>A mapping of two entries and a list of two elements.\<close>

theorem repeater_empty_restriction_witness:
  "restrict_keys \<lparr>filter_chain = None, restrict_keys = Some {}\<rparr> = Some {}
   \<and> \<not> has_errors example_st
   \<and> list_all hashable (map fst [(PStr ''a'', PInt 1), (PStr ''b'', PInt 2)])
   \<and> (\<exists>st'. FilterRepeater_apply example_env \<lparr>filter_chain = None, restrict_keys = Some {}\<rparr>
          (PDict [(PStr ''a'', PInt 1), (PStr ''b'', PInt 2)]) example_st = Inr (PDict [], st')
        \<and> errors st' = [FilterErr CODE_EXTRA_KEY (PInt 1) [PStr ''a''],
                         FilterErr CODE_EXTRA_KEY (PInt 2) [PStr ''b'']])
   \<and> \<not> is_mapping (PList [PInt 10, PInt 20])
   \<and> py_iter (PList [PInt 10, PInt 20]) = Inr [PInt 10, PInt 20]
   \<and> (\<exists>st'. FilterRepeater_apply example_env \<lparr>filter_chain = None, restrict_keys = Some {}\<rparr>
          (PList [PInt 10, PInt 20]) example_st
          = Inr (PList [PStr ''<invalid>'', PStr ''<invalid>''], st')
        \<and> errors st' = [FilterErr CODE_EXTRA_KEY (PInt 10) [PStr ''0''],
                         FilterErr CODE_EXTRA_KEY (PInt 20) [PStr ''1'']])"
proof -
  let ?self = "\<lparr>filter_chain = None, restrict_keys = Some {}\<rparr>"
  let ?kvs = "[(PStr ''a'', PInt 1), (PStr ''b'', PInt 2)]"
  let ?xs = "[PInt 10, PInt 20]"
  have h1: "restrict_keys ?self = Some {}" by simp
  have h2: "\<not> has_errors example_st" by (simp add: example_st_def)
  have h3: "list_all hashable (map fst ?kvs)" by simp
  have h4: "\<not> is_mapping (PList ?xs)" by simp
  have h5: "py_iter (PList ?xs) = Inr ?xs" by simp
  have u: "unicodify_key example_env (PInt 0) = ''0''" "unicodify_key example_env (PInt 1) = ''1''"
    by (simp_all add: unicodify_key_def example_env_def text_of_int_def text_of_nat.simps)
  have up: "[0..<length ?xs] = [0, 1]" by (simp add: upt_rec)
  note t = repeater_empty_restriction [OF h1 h2, of ?kvs example_env "PList ?xs" ?xs]
  from t h3 have m: "\<exists>st'. FilterRepeater_apply example_env ?self (PDict ?kvs) example_st
        = Inr (PDict [], st')
      \<and> errors st' = [FilterErr CODE_EXTRA_KEY (PInt 1) [PStr ''a''],
                       FilterErr CODE_EXTRA_KEY (PInt 2) [PStr ''b'']]"
    by (simp add: unicodify_key_def example_env_def example_st_def)
  from t h4 h5 have s: "\<exists>st'. FilterRepeater_apply example_env ?self (PList ?xs) example_st
          = Inr (PList [PStr ''<invalid>'', PStr ''<invalid>''], st')
        \<and> errors st' = [FilterErr CODE_EXTRA_KEY (PInt 10) [PStr ''0''],
                         FilterErr CODE_EXTRA_KEY (PInt 20) [PStr ''1'']]"
    unfolding up by (simp add: u example_st_def) (simp add: example_env_def)
  from h1 h2 h3 m h4 h5 s show ?thesis by blast
qed

subsection \<open>Both filters\<close>

text \<open>
  C8. A value that is not iterable, given to \<open>FilterRepeater._apply\<close>, and a value that
  is not a mapping, given to \<open>FilterMapper._apply\<close>: the call records one type-mismatch
  error against the current path (the empty path below the filter) and returns \<open>None\<close>;
  it raises nothing.
\<close>

theorem type_mismatch_rejected:
  "(\<not> is_iterable val \<longrightarrow>
      FilterRepeater_apply env r val st
        = Inr (PNone, st\<lparr>errors := errors st @ [FilterErr TYPE_MISMATCH val []],
                         has_errors := True\<rparr>))
   \<and> (\<not> is_mapping val \<longrightarrow>
      FilterMapper_apply env m val st
        = Inr (PNone, st\<lparr>errors := errors st @ [FilterErr TYPE_MISMATCH val []],
                         has_errors := True\<rparr>))"
  by (simp add: FilterRepeater_apply_def FilterMapper_apply_def Type_fails record_errors_def)

text \<open>Both filters applied to the integer \<open>5\<close>.\<close>

theorem type_mismatch_rejected_witness:
  "\<not> is_iterable (PInt 5) \<and> \<not> is_mapping (PInt 5)
   \<and> FilterRepeater_apply example_env \<lparr>filter_chain = None, restrict_keys = None\<rparr> (PInt 5)
        example_st
        = Inr (PNone, \<lparr>errors = [FilterErr TYPE_MISMATCH (PInt 5) []], has_errors = True\<rparr>)
   \<and> FilterMapper_apply example_env
        \<lparr>filters = [(PStr ''a'', None)], allow_missing_keys = PolicyBool True,
         allow_extra_keys = PolicyBool True\<rparr> (PInt 5) example_st
        = Inr (PNone, \<lparr>errors = [FilterErr TYPE_MISMATCH (PInt 5) []], has_errors = True\<rparr>)"
  using type_mismatch_rejected [of "PInt 5" example_env
      "\<lparr>filter_chain = None, restrict_keys = None\<rparr>" example_st
      "\<lparr>filters = [(PStr ''a'', None)], allow_missing_keys = PolicyBool True,
         allow_extra_keys = PolicyBool True\<rparr>"]
  by (simp add: example_st_def)

text \<open>
  C9. \<open>_missing_key_allowed\<close> and \<open>_extra_key_allowed\<close> return a boolean for every key
  and raise nothing. The policy \<open>True\<close> permits every key. Where the policy is a set and
  the membership test raises \<open>TypeError\<close>, as it does for every unhashable key, the key
  is not permitted.
\<close>

theorem key_permission_total:
  "(\<exists>b. missing_key_allowed self key = Inr b)
   \<and> (\<exists>b. extra_key_allowed self key = Inr b)
   \<and> (allow_missing_keys self = PolicyBool True \<longrightarrow> missing_key_allowed self key = Inr True)
   \<and> (allow_extra_keys self = PolicyBool True \<longrightarrow> extra_key_allowed self key = Inr True)
   \<and> (\<forall>S. allow_missing_keys self = PolicySet S \<and> py_set_contains S key = Inl TypeError
        \<longrightarrow> missing_key_allowed self key = Inr False)
   \<and> (\<forall>S. allow_extra_keys self = PolicySet S \<and> py_set_contains S key = Inl TypeError
        \<longrightarrow> extra_key_allowed self key = Inr False)
   \<and> (\<forall>S. \<not> hashable key \<longrightarrow> py_set_contains S key = Inl TypeError)"
  by (cases "allow_missing_keys self"; cases "allow_extra_keys self")
     (auto simp: missing_key_allowed_def extra_key_allowed_def py_set_contains_def)

text \<open>The unhashable key \<open>[]\<close> under the policy \<open>True\<close> and under the set \<open>{1}\<close>.\<close>

theorem key_permission_total_witness:
  "allow_missing_keys \<lparr>filters = [], allow_missing_keys = PolicyBool True,
       allow_extra_keys = PolicySet {PInt 1}\<rparr> = PolicyBool True
   \<and> missing_key_allowed \<lparr>filters = [], allow_missing_keys = PolicyBool True,
       allow_extra_keys = PolicySet {PInt 1}\<rparr> (PList []) = Inr True
   \<and> allow_extra_keys \<lparr>filters = [], allow_missing_keys = PolicyBool True,
       allow_extra_keys = PolicySet {PInt 1}\<rparr> = PolicySet {PInt 1}
   \<and> \<not> hashable (PList [])
   \<and> py_set_contains {PInt 1} (PList []) = Inl TypeError
   \<and> extra_key_allowed \<lparr>filters = [], allow_missing_keys = PolicyBool True,
       allow_extra_keys = PolicySet {PInt 1}\<rparr> (PList []) = Inr False"
proof -
  let ?self = "\<lparr>filters = [], allow_missing_keys = PolicyBool True,
       allow_extra_keys = PolicySet {PInt 1}\<rparr>"
  have h1: "allow_missing_keys ?self = PolicyBool True" by simp
  have h2: "allow_extra_keys ?self = PolicySet {PInt 1}" by simp
  have h3: "\<not> hashable (PList [])" by simp
  note t = key_permission_total [of ?self "PList []"]
  from t h1 have r1: "missing_key_allowed ?self (PList []) = Inr True" by blast
  from t h3 have r2: "py_set_contains {PInt 1} (PList []) = Inl TypeError" by blast
  from t h2 r2 have r3: "extra_key_allowed ?self (PList []) = Inr False" by blast
  from h1 r1 h2 h3 r2 r3 show ?thesis by blast
qed

end
